(* ===== verification/MS_Prelude.thy ===== *)
theory MS_Prelude
  imports Main
begin

text \<open>
  Shared vocabulary of the Minesweeper development: the Python exceptions the
  program can raise (as values of a sum type), the collections of rewrite rules
  the component theories feed, and generic lemmas on lists and counting that the
  invariant proofs of several components use.
\<close>

section \<open>Python exceptions as values\<close>

text \<open>
  Every exception the modelled code can raise is a constructor; an operation that
  may raise returns \<open>py_error + 'a\<close>, with \<open>Inl\<close> for the exception.
  \<^item> \<open>TypeError\<close>: \<open>None not in "12345678"\<close> in \<open>both_click\<close>, and unpacking the
    \<open>None\<close> that \<open>parse_input\<close> returns for a malformed line;
  \<^item> \<open>ValueError\<close>: \<open>int(...)\<close> of a non-numeric string, \<open>random.sample\<close> with a
    sample size outside \<open>[0, population]\<close>;
  \<^item> \<open>RecursionError\<close>: the recursion of \<open>one_block_sweep\<close> exceeding the
    interpreter's recursion limit (the fuel of the model);
  \<^item> \<open>EOFError\<close>: \<open>input()\<close> at the end of the input stream.
\<close>

datatype py_error = TypeError | ValueError | RecursionError | EOFError

type_synonym 'a py_result = "py_error + 'a"

section \<open>Rule collections\<close>

text \<open>
  \<open>board_simps\<close> collects the characteristic equations of the board accessors
  (\<open>board_get\<close> after \<open>board_set\<close>, well-formedness of updates);
  \<open>layout_simps\<close> the facts that an operation keeps the mine layout.
\<close>

named_theorems board_simps "equations of the board accessors"
named_theorems layout_simps "operations that keep the mine layout"

section \<open>Counting over a list with one changed point\<close>

text \<open>
  The counters of the game (\<open>curr_mine\<close>, \<open>curr_eval\<close>) are compared with the
  number of cells of a kind. Setting one cell changes such a number by the
  difference of two indicators; over a distinct list of positions this is the
  following lemma, stated in \<open>int\<close> so that no truncating subtraction is needed.
\<close>

lemma length_filter_point_change:
  assumes "distinct xs" and "\<And>z. z \<noteq> a \<Longrightarrow> Q z = P z"
  shows "int (length (filter Q xs)) =
           int (length (filter P xs)) - (if a \<in> set xs \<and> P a then 1 else 0)
                                     + (if a \<in> set xs \<and> Q a then 1 else 0)"
  using assms(1)
proof (induction xs)
  case Nil
  then show ?case by simp
next
  case (Cons y ys)
  then have IH: "int (length (filter Q ys)) =
           int (length (filter P ys)) - (if a \<in> set ys \<and> P a then 1 else 0)
                                     + (if a \<in> set ys \<and> Q a then 1 else 0)"
    and ny: "y \<notin> set ys" by auto
  show ?case
  proof (cases "y = a")
    case True
    with ny IH show ?thesis by auto
  next
    case False
    with assms(2)[of y] IH show ?thesis by auto
  qed
qed

lemma length_filter_same:
  "(\<And>z. z \<in> set xs \<Longrightarrow> Q z = P z) \<Longrightarrow> length (filter Q xs) = length (filter P xs)"
  by (metis filter_cong)

lemma sum_list_indicator:
  "sum_list (map (\<lambda>z. if P z then 1 else 0) xs) = (length (filter P xs) :: nat)"
  by (induction xs) auto

lemma length_filter_le_length [intro]: "length (filter P xs) \<le> length xs"
  by simp

lemma length_filter_mono_pred:
  "(\<And>z. P z \<Longrightarrow> Q z) \<Longrightarrow> length (filter P xs) \<le> length (filter Q xs)"
  by (induction xs) auto

lemma length_filter_mono_on:
  "\<forall>z\<in>set xs. P z \<longrightarrow> Q z \<Longrightarrow> length (filter P xs) \<le> length (filter Q xs)"
  by (induction xs) auto

lemma length_filter_less:
  "\<forall>z\<in>set xs. Q z \<longrightarrow> P z \<Longrightarrow> x \<in> set xs \<Longrightarrow> P x \<Longrightarrow> \<not> Q x \<Longrightarrow>
     length (filter Q xs) < length (filter P xs)"
proof (induction xs)
  case (Cons a xs)
  show ?case
  proof (cases "x = a")
    case True
    with Cons.prems have "length (filter Q xs) \<le> length (filter P xs)"
      by (intro length_filter_mono_on) simp
    with True Cons.prems show ?thesis by simp
  next
    case False
    with Cons show ?thesis by (auto simp: le_imp_less_Suc)
  qed
qed simp

lemma length_filter_eq_imp:
  assumes "\<forall>z\<in>set xs. P z \<longrightarrow> Q z" and "length (filter P xs) = length (filter Q xs)"
  shows "\<forall>z\<in>set xs. Q z \<longrightarrow> P z"
  using assms
proof (induction xs)
  case Nil
  then show ?case by simp
next
  case (Cons y ys)
  have imp: "\<forall>z\<in>set ys. P z \<longrightarrow> Q z" using Cons.prems(1) by simp
  then have le: "length (filter P ys) \<le> length (filter Q ys)"
    by (rule length_filter_mono_on)
  have "P y = Q y \<and> length (filter P ys) = length (filter Q ys)"
  proof (cases "P y")
    case True
    with Cons.prems show ?thesis by simp
  next
    case False
    with Cons.prems(2) le show ?thesis by (cases "Q y") simp_all
  qed
  with Cons.IH imp show ?case by simp
qed

section \<open>Lists of lists\<close>

lemma nth_nested_update [simp]:
  assumes "i < length xss" and "j < length (xss ! i)"
  shows "xss[i := (xss ! i)[j := v]] ! i' ! j' =
           (if i' = i \<and> j' = j then v else xss ! i' ! j')"
  using assms by (cases "i' = i") auto

lemma nested_update_rows:
  "\<forall>row\<in>set xss. length row = n \<Longrightarrow> i < length xss \<Longrightarrow>
     \<forall>row\<in>set (xss[i := (xss ! i)[j := v]]). length row = n"
  by (auto dest!: set_update_subset_insert [THEN subsetD])

end
