(* ===== verification/Py_Str.thy ===== *)
theory Py_Str
  imports MS_Prelude
begin

text \<open>
  The Python string built-ins the program calls, on ASCII strings (\<open>string\<close>, a
  list of byte characters): the substring test \<open>s in t\<close>, \<open>str(n)\<close> of a
  natural number, \<open>int(s)\<close> of a string, \<open>s.split()\<close> and \<open>sep.join(xs)\<close>.
  They belong to the language, not to the repository; the program's own
  definitions are built on them. The round trip \<open>int(str(n)) = n\<close> is proved here
  because \<open>both_click\<close> reads back with \<open>int\<close> the count that
  \<open>one_block_sweep\<close> wrote with \<open>str\<close>.
\<close>

section \<open>Characters\<close>

definition is_digit_chr :: "char \<Rightarrow> bool" where
  "is_digit_chr c \<longleftrightarrow> 48 \<le> (of_char c :: nat) \<and> (of_char c :: nat) \<le> 57"

definition digit_val :: "char \<Rightarrow> nat" where
  "digit_val c = of_char c - 48"

text \<open>The characters for which Python's \<open>str.isspace\<close> holds, in ASCII.\<close>

definition is_space_chr :: "char \<Rightarrow> bool" where
  "is_space_chr c \<longleftrightarrow> (9 \<le> (of_char c :: nat) \<and> (of_char c :: nat) \<le> 13)
     \<or> (28 \<le> (of_char c :: nat) \<and> (of_char c :: nat) \<le> 32)"

section \<open>The substring test \<open>s in t\<close>\<close>

fun str_in :: "string \<Rightarrow> string \<Rightarrow> bool" where
  "str_in s [] \<longleftrightarrow> s = []"
| "str_in s (c # cs) \<longleftrightarrow> take (length s) (c # cs) = s \<or> str_in s cs"

section \<open>\<open>str(n)\<close> for a natural number\<close>

fun nat_str :: "nat \<Rightarrow> string" where
  "nat_str n = (if n < 10 then [char_of (48 + n)]
                else nat_str (n div 10) @ [char_of (48 + n mod 10)])"

declare nat_str.simps [simp del]

section \<open>\<open>int(s)\<close>\<close>

text \<open>
  \<open>int(s)\<close> on an ASCII string: an optional sign, then decimal digits, single
  underscores allowed between digits; anything else raises \<open>ValueError\<close>
  (\<open>None\<close> here). Surrounding white space, which \<open>int\<close> also strips, never
  reaches it in this program (\<open>split\<close> removed it).
\<close>

definition digits_value :: "string \<Rightarrow> nat" where
  "digits_value s = foldl (\<lambda>acc c. 10 * acc + digit_val c) 0 s"

definition py_digits :: "string \<Rightarrow> nat option" where
  "py_digits s =
     (if s \<noteq> [] \<and> is_digit_chr (hd s) \<and> is_digit_chr (last s)
         \<and> (\<forall>c\<in>set s. is_digit_chr c \<or> c = CHR ''_'') \<and> \<not> str_in ''__'' s
      then Some (digits_value (filter is_digit_chr s)) else None)"

definition py_int :: "string \<Rightarrow> int option" where
  "py_int s =
     (case s of
        [] \<Rightarrow> None
      | c # r \<Rightarrow>
          if c = CHR ''-'' then map_option (\<lambda>n. - int n) (py_digits r)
          else if c = CHR ''+'' then map_option int (py_digits r)
          else map_option int (py_digits s))"

section \<open>\<open>s.split()\<close> and \<open>sep.join(xs)\<close>\<close>

fun split_acc :: "string \<Rightarrow> string \<Rightarrow> string list" where
  "split_acc cur [] = (if cur = [] then [] else [rev cur])"
| "split_acc cur (c # cs) =
     (if is_space_chr c
      then (if cur = [] then split_acc [] cs else rev cur # split_acc [] cs)
      else split_acc (c # cur) cs)"

definition py_split :: "string \<Rightarrow> string list" where
  "py_split s = split_acc [] s"

fun py_join :: "string \<Rightarrow> string list \<Rightarrow> string" where
  "py_join sep [] = []"
| "py_join sep [x] = x"
| "py_join sep (x # y # zs) = x @ sep @ py_join sep (y # zs)"

section \<open>Lemmas\<close>

lemma nat_str_digits: "\<forall>c\<in>set (nat_str n). is_digit_chr c"
proof (induction n rule: nat_str.induct)
  case (1 n)
  have d: "is_digit_chr (char_of (48 + k))" if "k < 10" for k :: nat
    using that by (simp add: is_digit_chr_def of_char_of)
  show ?case
    using "1.IH" d [of n] d [of "n mod 10"] by (simp add: nat_str.simps [of n])
qed

lemma nat_str_not_Nil [simp]: "nat_str n \<noteq> []"
  by (simp add: nat_str.simps [of n])

lemma digit_val_char_of [simp]: "k < 10 \<Longrightarrow> digit_val (char_of (48 + k)) = k"
  by (simp add: digit_val_def of_char_of)

lemma digits_value_snoc: "digits_value (s @ [c]) = 10 * digits_value s + digit_val c"
  by (simp add: digits_value_def)

lemma digits_value_nat_str: "digits_value (nat_str n) = n"
proof (induction n rule: nat_str.induct)
  case (1 n)
  show ?case
  proof (cases "n < 10")
    case True
    then show ?thesis by (simp add: nat_str.simps [of n] digits_value_def)
  next
    case False
    with "1.IH" show ?thesis
      by (simp add: nat_str.simps [of n] digits_value_snoc)
  qed
qed

lemma str_in_no_char: "CHR ''_'' \<notin> set t \<Longrightarrow> \<not> str_in ''__'' t"
  by (induction t) (auto simp: take_Cons')

lemma nat_str_hd: "\<not> hd (nat_str n) = CHR ''-'' \<and> \<not> hd (nat_str n) = CHR ''+''"
proof -
  have "hd (nat_str n) \<in> set (nat_str n)" by simp
  then have "is_digit_chr (hd (nat_str n))" using nat_str_digits by blast
  then show ?thesis by (auto simp: is_digit_chr_def)
qed

lemma py_digits_nat_str: "py_digits (nat_str n) = Some n"
proof -
  have all: "\<forall>c\<in>set (nat_str n). is_digit_chr c" by (rule nat_str_digits)
  then have "CHR ''_'' \<notin> set (nat_str n)" by (auto simp: is_digit_chr_def)
  then have "\<not> str_in ''__'' (nat_str n)" by (rule str_in_no_char)
  moreover have "filter is_digit_chr (nat_str n) = nat_str n"
    using all by simp
  ultimately show ?thesis
    using all by (simp add: py_digits_def digits_value_nat_str)
qed

text \<open>\<open>int(str(n)) = n\<close>: the round trip through the decimal representation.\<close>

lemma py_int_nat_str [simp]: "py_int (nat_str n) = Some (int n)"
proof -
  obtain c r where cr: "nat_str n = c # r"
    by (cases "nat_str n") auto
  with nat_str_hd [of n] have "c \<noteq> CHR ''-''" and "c \<noteq> CHR ''+''" by auto
  with cr show ?thesis by (simp add: py_int_def py_digits_nat_str [of n, unfolded cr])
qed

lemma nat_str_inj: "nat_str m = nat_str n \<Longrightarrow> m = n"
  by (metis digits_value_nat_str)

end
