(* ===== verification/Marks.thy ===== *)
theory Marks
  imports Py_Str
begin

text \<open>
  The status of one cell. The Python board holds one string per cell
  (docstring of \<open>MineModelBoard\<close>, \<open>src/mineSweeper.py\<close> lines 50--59); each
  string the program ever writes is a constructor here, and \<open>mark_str\<close> gives the
  string back. \<open>mark_str\<close> is injective (\<open>mark_str_inj\<close>), so a comparison of
  two marks is the comparison of their strings in the source. The two lookup
  tables of the program over marks are here too: the cycle of \<open>right_click\<close>
  and the table of \<open>output\<close>'s inner function \<open>hidden\<close>.
\<close>

section \<open>Cell statuses\<close>

datatype mark =
    Unrevealed   \<comment> \<open>\<open>" "\<close>: unrevealed block\<close>
  | Mine         \<comment> \<open>\<open>"X"\<close>: hidden mine\<close>
  | Flag         \<comment> \<open>\<open>"F"\<close>: flagged mine\<close>
  | WrongFlag    \<comment> \<open>\<open>"W"\<close>: flag on a block without mine\<close>
  | MarkMine     \<comment> \<open>\<open>"?"\<close>: mine marked as ?\<close>
  | MarkSafe     \<comment> \<open>\<open>"!"\<close>: block without mine marked as ?\<close>
  | Blank        \<comment> \<open>\<open>"B"\<close>: revealed, no mine around\<close>
  | Digit nat    \<comment> \<open>\<open>str(n)\<close>: revealed, \<open>n\<close> mines around\<close>

primrec mark_str :: "mark \<Rightarrow> string" where
  "mark_str Unrevealed = '' ''"
| "mark_str Mine = ''X''"
| "mark_str Flag = ''F''"
| "mark_str WrongFlag = ''W''"
| "mark_str MarkMine = ''?''"
| "mark_str MarkSafe = ''!''"
| "mark_str Blank = ''B''"
| "mark_str (Digit n) = nat_str n"

text \<open>
  The mark lists of the source: \<open>["X", "F", "?"]\<close> (counted as mines by
  \<open>_get_num_mines\<close>, line 119) and \<open>["F", "W", "?", "!"]\<close> (counted as marked by
  \<open>_get_num_flagged_blocks\<close>, line 126, and skipped by \<open>both_click\<close>, line 169).
\<close>

definition mine_marks :: "mark list" where
  "mine_marks = [Mine, Flag, MarkMine]"

definition flagged_marks :: "mark list" where
  "flagged_marks = [Flag, WrongFlag, MarkMine, MarkSafe]"

text \<open>The statuses the class docstring lists (lines 50--59), as strings.\<close>

definition block_statuses :: "string list" where
  "block_statuses = ['' '', ''X'', ''F'', ''W'', ''?'', ''!'', ''B'',
                     ''1'', ''2'', ''3'', ''4'', ''5'', ''6'', ''7'', ''8'']"

text \<open>A mark is revealed when it is \<open>"B"\<close> or a count.\<close>

fun is_revealed :: "mark \<Rightarrow> bool" where
  "is_revealed Blank = True"
| "is_revealed (Digit n) = True"
| "is_revealed _ = False"

section \<open>The table of \<open>right_click\<close>\<close>

text \<open>
  \<open>dct.get(mark, mark)\<close> with the dictionary of \<open>right_click\<close> (lines 150--156):
  a mark the dictionary does not name is kept.
\<close>

fun next_mark :: "mark \<Rightarrow> mark" where
  "next_mark Unrevealed = WrongFlag"
| "next_mark Mine = Flag"
| "next_mark WrongFlag = MarkSafe"
| "next_mark Flag = MarkMine"
| "next_mark MarkSafe = Unrevealed"
| "next_mark MarkMine = Mine"
| "next_mark m = m"

section \<open>The table of \<open>output\<close>\<close>

text \<open>
  \<open>dct.get(c, c)\<close> with the dictionary \<open>{"X": " ", "W": "F", "!": "?"}\<close> of the
  inner function \<open>hidden\<close> of \<open>output\<close> (lines 197--202).
\<close>

fun hidden_dct :: "mark \<Rightarrow> mark" where
  "hidden_dct Mine = Unrevealed"
| "hidden_dct WrongFlag = Flag"
| "hidden_dct MarkSafe = MarkMine"
| "hidden_dct m = m"

section \<open>Lemmas\<close>

lemma mark_str_digits_iff:
  "(\<forall>c\<in>set (mark_str m). is_digit_chr c) \<longleftrightarrow> (\<exists>n. m = Digit n)"
proof (cases m)
  case (Digit n)
  then show ?thesis using nat_str_digits by auto
qed (auto simp: is_digit_chr_def)

lemma mark_str_inj: "mark_str a = mark_str b \<Longrightarrow> a = b"
proof -
  assume eq: "mark_str a = mark_str b"
  show "a = b"
  proof (cases "\<exists>n. a = Digit n")
    case True
    then obtain m where a: "a = Digit m" by blast
    with eq mark_str_digits_iff [of a] mark_str_digits_iff [of b]
    obtain n where "b = Digit n" by auto
    with a eq show ?thesis by (auto dest: nat_str_inj)
  next
    case False
    with eq mark_str_digits_iff [of a] mark_str_digits_iff [of b]
    have "\<nexists>n. b = Digit n" by auto
    with False eq show ?thesis by (cases a; cases b) auto
  qed
qed

lemma mark_str_status:
  assumes "\<And>k. m = Digit k \<Longrightarrow> 1 \<le> k \<and> k \<le> 8"
  shows "mark_str m \<in> set block_statuses"
proof (cases m)
  case (Digit k)
  have "list_all (\<lambda>k. nat_str k \<in> set block_statuses) [1..<9]" by code_simp
  with Digit assms [of k] show ?thesis by (auto simp: list_all_iff)
qed (simp_all add: block_statuses_def)

lemma mark_str_not_Nil [simp]: "mark_str m \<noteq> []"
  by (cases m) auto

lemma mine_marks_iff [simp]:
  "m \<in> set mine_marks \<longleftrightarrow> m = Mine \<or> m = Flag \<or> m = MarkMine"
  by (auto simp: mine_marks_def)

lemma flagged_marks_iff [simp]:
  "m \<in> set flagged_marks \<longleftrightarrow> m = Flag \<or> m = WrongFlag \<or> m = MarkMine \<or> m = MarkSafe"
  by (auto simp: flagged_marks_def)

text \<open>\<open>right_click\<close> never changes whether a block holds a mine.\<close>

lemma next_mark_mine_id [simp]:
  "next_mark m \<in> set mine_marks \<longleftrightarrow> m \<in> set mine_marks"
  by (cases m) auto

lemma next_mark_revealed [simp]: "is_revealed (next_mark m) = is_revealed m"
  by (cases m) auto

lemma next_mark_cycle [simp]: "next_mark (next_mark (next_mark m)) = m"
  by (cases m) auto

lemma next_mark_revealed_id: "is_revealed m \<Longrightarrow> next_mark m = m"
  by (cases m) auto

lemma next_mark_eq_Flag: "next_mark m = Flag \<longleftrightarrow> m = Mine"
  by (cases m) auto

text \<open>The table of \<open>output\<close> cannot tell a mine from a non-mine in any covered block.\<close>

lemma hidden_dct_pairs [simp]:
  "hidden_dct Mine = hidden_dct Unrevealed"
  "hidden_dct Flag = hidden_dct WrongFlag"
  "hidden_dct MarkMine = hidden_dct MarkSafe"
  by simp_all

end
