(* ===== verification/Board.thy ===== *)
theory Board
  imports Marks
begin

text \<open>
  The state of a \<open>MineModelBoard\<close> object (\<open>src/mineSweeper.py\<close> lines 49--89)
  and its inner accessors (lines 91--129): \<open>_get\<close>, \<open>_set\<close>,
  \<open>_get_neighbors\<close>, \<open>_get_num_mines\<close>, \<open>_get_num_flagged_blocks\<close>. The board is
  a list of \<open>h\<close> rows of \<open>w\<close> marks, read as \<open>board[y][x]\<close>. Python's integers are
  \<open>int\<close>; coordinates can be negative (the neighbours of a border cell, the
  \<open>int(x) - 1\<close> of the console input), and \<open>_get\<close> answers \<open>None\<close> there.
  Besides the accessors this theory defines the well-formedness of the board, the
  number of cells of a kind (\<open>count_cells\<close>) and the mine layout (which cell
  holds a mine, whatever its flag), with the lemmas that all later proofs share.
\<close>

section \<open>State\<close>

record mine_model_board =
  h :: int
  w :: int
  num_mine :: int
  board :: "mark list list"
  curr_mine :: int
  curr_eval :: int

section \<open>Accessors\<close>

definition board_get :: "mine_model_board \<Rightarrow> int \<Rightarrow> int \<Rightarrow> mark option" where
  "board_get s x y =
     (if x \<ge> 0 \<and> x < w s \<and> y \<ge> 0 \<and> y < h s then Some (board s ! nat y ! nat x) else None)"

text \<open>
  \<open>_set\<close> also returns whether it wrote; no caller uses that value, so the model
  returns the new state only.
\<close>

definition board_set :: "mine_model_board \<Rightarrow> int \<Rightarrow> int \<Rightarrow> mark \<Rightarrow> mine_model_board" where
  "board_set s x y m =
     (if x \<ge> 0 \<and> x < w s \<and> y \<ge> 0 \<and> y < h s
      then s\<lparr>board := (board s)[nat y := (board s ! nat y)[nat x := m]]\<rparr>
      else s)"

definition neighbor_candidates :: "int \<Rightarrow> int \<Rightarrow> (int \<times> int) list" where
  "neighbor_candidates x y =
     [(x - 1, y - 1), (x - 1, y), (x - 1, y + 1),
      (x, y - 1), (x, y + 1),
      (x + 1, y - 1), (x + 1, y), (x + 1, y + 1)]"

text \<open>\<open>if self._get(i, j)\<close>: \<open>None\<close> and the empty string are false in Python.\<close>

definition get_neighbors :: "mine_model_board \<Rightarrow> int \<Rightarrow> int \<Rightarrow> (int \<times> int \<times> mark) list" where
  "get_neighbors s x y =
     concat (map (\<lambda>(i, j). case board_get s i j of
                             None \<Rightarrow> []
                           | Some m \<Rightarrow> if mark_str m \<noteq> [] then [(i, j, m)] else [])
                 (neighbor_candidates x y))"

definition get_num_mines :: "mine_model_board \<Rightarrow> int \<Rightarrow> int \<Rightarrow> nat" where
  "get_num_mines s x y =
     sum_list (map (\<lambda>(_, _, m). if m \<in> set mine_marks then 1 else 0) (get_neighbors s x y))"

definition get_num_flagged_blocks :: "mine_model_board \<Rightarrow> int \<Rightarrow> int \<Rightarrow> nat" where
  "get_num_flagged_blocks s x y =
     sum_list (map (\<lambda>(_, _, m). if m \<in> set flagged_marks then 1 else 0) (get_neighbors s x y))"

section \<open>Well-formedness, positions, counts, layout\<close>

definition in_board :: "mine_model_board \<Rightarrow> int \<Rightarrow> int \<Rightarrow> bool" where
  "in_board s x y \<longleftrightarrow> 0 \<le> x \<and> x < w s \<and> 0 \<le> y \<and> y < h s"

definition board_wf :: "mine_model_board \<Rightarrow> bool" where
  "board_wf s \<longleftrightarrow> 0 \<le> h s \<and> 0 \<le> w s \<and> length (board s) = nat (h s)
                 \<and> (\<forall>row\<in>set (board s). length row = nat (w s))"

text \<open>All positions of the board, row by row.\<close>

definition coords :: "mine_model_board \<Rightarrow> (int \<times> int) list" where
  "coords s = [(x, y). y \<leftarrow> [0..h s - 1], x \<leftarrow> [0..w s - 1]]"

definition cell_is :: "(mark \<Rightarrow> bool) \<Rightarrow> mine_model_board \<Rightarrow> int \<times> int \<Rightarrow> bool" where
  "cell_is P s p = (case board_get s (fst p) (snd p) of Some m \<Rightarrow> P m | None \<Rightarrow> False)"

definition count_cells :: "(mark \<Rightarrow> bool) \<Rightarrow> mine_model_board \<Rightarrow> nat" where
  "count_cells P s = length (filter (cell_is P s) (coords s))"

definition is_mine_id :: "mark \<Rightarrow> bool" where
  "is_mine_id m \<longleftrightarrow> m \<in> set mine_marks"

text \<open>
  Which in-board cell holds a mine. Every operation keeps it (the mine identity of a
  cell never changes); \<open>_get_num_mines\<close> depends on nothing else.
\<close>

definition mine_layout :: "mine_model_board \<Rightarrow> int \<Rightarrow> int \<Rightarrow> bool option" where
  "mine_layout s x y = map_option is_mine_id (board_get s x y)"

section \<open>A fixture\<close>

text \<open>
  The board of the spec's scenarios: three by three, one mine at \<open>(2, 2)\<close>,
  nothing revealed or flagged. The witnesses evaluate the operations on it.
\<close>

definition ex_board :: mine_model_board where
  "ex_board = \<lparr>h = 3, w = 3, num_mine = 1,
     board = [[Unrevealed, Unrevealed, Unrevealed],
              [Unrevealed, Unrevealed, Unrevealed],
              [Unrevealed, Unrevealed, Mine]],
     curr_mine = 1, curr_eval = 0\<rparr>"

text \<open>The same board after the cascade from \<open>(0, 0)\<close>: all eight safe blocks revealed.\<close>

definition ex_swept :: mine_model_board where
  "ex_swept = ex_board\<lparr>board := [[Blank, Blank, Blank],
                                  [Blank, Digit 1, Digit 1],
                                  [Blank, Digit 1, Mine]], curr_eval := 8\<rparr>"

section \<open>Lemmas on the accessors\<close>

lemma board_get_None_iff: "board_get s x y = None \<longleftrightarrow> \<not> in_board s x y"
  by (simp add: board_get_def in_board_def)

lemma board_get_in_board: "board_get s x y = Some m \<Longrightarrow> in_board s x y"
  unfolding board_get_def in_board_def by (auto split: if_splits)

lemma board_get_cong:
  "h t = h s \<Longrightarrow> w t = w s \<Longrightarrow> board t = board s \<Longrightarrow> board_get t = board_get s"
  by (simp add: board_get_def fun_eq_iff)

lemma board_get_counters [simp]:
  "board_get (s\<lparr>curr_eval := e\<rparr>) = board_get s"
  "board_get (s\<lparr>curr_mine := c\<rparr>) = board_get s"
  by (rule board_get_cong; simp)+

lemma board_set_fields [simp]:
  "h (board_set s x y m) = h s" "w (board_set s x y m) = w s"
  "num_mine (board_set s x y m) = num_mine s"
  "curr_mine (board_set s x y m) = curr_mine s"
  "curr_eval (board_set s x y m) = curr_eval s"
  by (simp_all add: board_set_def)

lemma board_set_out: "\<not> in_board s x y \<Longrightarrow> board_set s x y m = s"
  unfolding board_set_def in_board_def by (rule if_not_P)

lemma board_wf_set [board_simps]:
  assumes "board_wf s"
  shows "board_wf (board_set s x y m)"
proof (cases "0 \<le> x \<and> x < w s \<and> 0 \<le> y \<and> y < h s")
  case True
  from assms True have r: "nat y < length (board s)" by (simp add: board_wf_def)
  have "board_set s x y m = s\<lparr>board := (board s)[nat y := (board s ! nat y)[nat x := m]]\<rparr>"
    using True by (simp add: board_set_def)
  moreover have "\<forall>row\<in>set ((board s)[nat y := (board s ! nat y)[nat x := m]]).
                   length row = nat (w s)"
    using assms r by (intro nested_update_rows) (simp_all add: board_wf_def)
  ultimately show ?thesis using assms r by (simp add: board_wf_def)
next
  case False
  then have "board_set s x y m = s" by (simp add: board_set_out in_board_def)
  with assms show ?thesis by simp
qed

lemma board_wf_counters [simp]:
  "board_wf (s\<lparr>curr_eval := e\<rparr>) = board_wf s"
  "board_wf (s\<lparr>curr_mine := c\<rparr>) = board_wf s"
  by (simp_all add: board_wf_def)

lemma board_get_set [board_simps]:
  assumes "board_wf s"
  shows "board_get (board_set s a b m) x y =
           (if x = a \<and> y = b \<and> in_board s a b then Some m else board_get s x y)"
proof (cases "in_board s a b")
  case True
  then have r: "nat b < length (board s)" and c: "nat a < length (board s ! nat b)"
    using assms by (auto simp: board_wf_def in_board_def)
  have "nat y = nat b \<and> nat x = nat a \<longleftrightarrow> y = b \<and> x = a"
    if "0 \<le> x" "0 \<le> y" using that True by (auto simp: in_board_def)
  with True r c show ?thesis
    by (auto simp: board_get_def board_set_def in_board_def)
next
  case False
  then have "board_set s a b m = s" by (rule board_set_out)
  with False show ?thesis by simp
qed

lemma board_set_same:
  assumes "board_wf s" and "board_get s x y = Some m"
  shows "board_set s x y m = s"
proof -
  from assms(2) have ib: "in_board s x y" by (rule board_get_in_board)
  with assms(1) have "nat y < length (board s)" "nat x < length (board s ! nat y)"
    by (auto simp: board_wf_def in_board_def)
  moreover from ib assms(2) have "m = board s ! nat y ! nat x"
    by (simp add: board_get_def in_board_def)
  ultimately show ?thesis
    using ib by (simp add: board_set_def in_board_def)
qed

lemma board_set_twice:
  assumes "board_wf s"
  shows "board_set (board_set s x y a) x y b = board_set s x y b"
proof (cases "in_board s x y")
  case True
  with assms have "nat y < length (board s)" by (simp add: board_wf_def in_board_def)
  with True show ?thesis by (simp add: board_set_def in_board_def)
next
  case False
  then show ?thesis by (simp add: board_set_out in_board_def)
qed

section \<open>Lemmas on positions and counts\<close>

lemma coords_product: "coords s = map prod.swap (List.product [0..h s - 1] [0..w s - 1])"
  by (simp add: coords_def product_concat_map map_concat comp_def)

lemma set_coords [simp]: "p \<in> set (coords s) \<longleftrightarrow> in_board s (fst p) (snd p)"
  by (cases p) (auto simp: coords_product in_board_def image_iff)

lemma distinct_coords [simp]: "distinct (coords s)"
  by (simp add: coords_product distinct_map distinct_product)

lemma count_cells_cong:
  "h t = h s \<Longrightarrow> w t = w s \<Longrightarrow> board_get t = board_get s \<Longrightarrow>
     count_cells P t = count_cells P s"
proof -
  assume "h t = h s" "w t = w s" "board_get t = board_get s"
  moreover from \<open>board_get t = board_get s\<close> have "cell_is P t = cell_is P s"
    by (simp add: cell_is_def fun_eq_iff)
  ultimately show ?thesis by (simp add: count_cells_def coords_def)
qed

lemma count_cells_counters [simp]:
  "count_cells P (s\<lparr>curr_eval := e\<rparr>) = count_cells P s"
  "count_cells P (s\<lparr>curr_mine := c\<rparr>) = count_cells P s"
  by (rule count_cells_cong; simp)+

lemma count_cells_set [board_simps]:
  assumes "board_wf s" and "board_get s a b = Some m0"
  shows "int (count_cells P (board_set s a b m)) =
           int (count_cells P s) - (if P m0 then 1 else 0) + (if P m then 1 else 0)"
proof -
  have ib: "in_board s a b" using assms(2) by (rule board_get_in_board)
  have coords_eq: "coords (board_set s a b m) = coords s"
    by (simp add: coords_def)
  have "cell_is P (board_set s a b m) z = cell_is P s z" if "z \<noteq> (a, b)" for z
    using that assms(1) by (cases z) (auto simp: cell_is_def board_get_set)
  then have "int (length (filter (cell_is P (board_set s a b m)) (coords s))) =
      int (length (filter (cell_is P s) (coords s)))
      - (if (a, b) \<in> set (coords s) \<and> cell_is P s (a, b) then 1 else 0)
      + (if (a, b) \<in> set (coords s) \<and> cell_is P (board_set s a b m) (a, b) then 1 else 0)"
    by (intro length_filter_point_change) simp_all
  with ib assms show ?thesis
    by (simp add: count_cells_def coords_eq cell_is_def board_get_set)
qed

lemma count_cells_mono:
  "(\<And>m. P m \<Longrightarrow> Q m) \<Longrightarrow> count_cells P s \<le> count_cells Q s"
  unfolding count_cells_def cell_is_def
  by (rule length_filter_mono_pred) (auto split: option.splits)

lemma count_cells_disj:
  "(\<And>m. \<not> (P m \<and> Q m)) \<Longrightarrow>
     count_cells (\<lambda>m. P m \<or> Q m) s = count_cells P s + count_cells Q s"
proof -
  assume dj: "\<And>m. \<not> (P m \<and> Q m)"
  have "length (filter (\<lambda>p. cell_is P s p \<or> cell_is Q s p) xs) =
        length (filter (cell_is P s) xs) + length (filter (cell_is Q s) xs)" for xs
    using dj by (induction xs) (auto simp: cell_is_def split: option.splits)
  moreover have "cell_is (\<lambda>m. P m \<or> Q m) s = (\<lambda>p. cell_is P s p \<or> cell_is Q s p)"
    by (auto simp: cell_is_def fun_eq_iff split: option.splits)
  ultimately show ?thesis by (simp add: count_cells_def)
qed

lemma count_cells_all:
  assumes "board_wf s"
  shows "count_cells (\<lambda>_. True) s = nat (h s) * nat (w s)"
proof -
  have "filter (cell_is (\<lambda>_. True) s) (coords s) = coords s"
    by (auto simp: cell_is_def board_get_def in_board_def)
  moreover have "length (coords s) = nat (h s) * nat (w s)"
    by (simp add: coords_def length_concat comp_def sum_list_triv)
  ultimately show ?thesis by (simp add: count_cells_def)
qed

lemma board_get_mem:
  assumes "board_wf s" and "row \<in> set (board s)" and "m \<in> set row"
  obtains x y where "board_get s x y = Some m"
proof -
  obtain i where i: "i < length (board s)" "row = board s ! i"
    using assms(2) by (auto simp: in_set_conv_nth)
  obtain j where j: "j < length row" "m = row ! j"
    using assms(3) by (auto simp: in_set_conv_nth)
  have "board_get s (int j) (int i) = Some m"
    using assms(1) i j by (auto simp: board_wf_def board_get_def)
  then show ?thesis by (rule that)
qed

section \<open>Lemmas on neighbours\<close>

lemma set_get_neighbors:
  "(i, j, m) \<in> set (get_neighbors s x y) \<longleftrightarrow>
     (i, j) \<in> set (neighbor_candidates x y) \<and> board_get s i j = Some m"
  by (auto simp: get_neighbors_def split: option.splits)

lemma get_neighbors_cong:
  "board_get t = board_get s \<Longrightarrow> get_neighbors t x y = get_neighbors s x y"
  by (simp add: get_neighbors_def)

lemma get_neighbors_counters [simp]:
  "get_neighbors (s\<lparr>curr_eval := e\<rparr>) x y = get_neighbors s x y"
  "get_neighbors (s\<lparr>curr_mine := c\<rparr>) x y = get_neighbors s x y"
  by (rule get_neighbors_cong; simp)+

lemma count_candidates:
  "sum_list (map (\<lambda>(_, _, m). if P m then 1 else 0)
     (concat (map (\<lambda>(i, j). case board_get s i j of
                             None \<Rightarrow> []
                           | Some m \<Rightarrow> if mark_str m \<noteq> [] then [(i, j, m)] else []) cs))) =
     (length (filter (\<lambda>(i, j). case board_get s i j of Some m \<Rightarrow> P m | None \<Rightarrow> False) cs)
      :: nat)"
proof (induction cs)
  case (Cons c cs)
  then show ?case by (cases c; cases "board_get s (fst c) (snd c)") auto
qed simp

lemma count_neighbors:
  "sum_list (map (\<lambda>(_, _, m). if P m then 1 else 0) (get_neighbors s x y)) =
     (length (filter (\<lambda>(i, j). case board_get s i j of Some m \<Rightarrow> P m | None \<Rightarrow> False)
                     (neighbor_candidates x y)) :: nat)"
  unfolding get_neighbors_def by (rule count_candidates)

lemma get_num_mines_layout:
  "mine_layout t = mine_layout s \<Longrightarrow> get_num_mines t x y = get_num_mines s x y"
proof -
  assume L: "mine_layout t = mine_layout s"
  have "(case board_get t i j of Some m \<Rightarrow> m \<in> set mine_marks | None \<Rightarrow> False) =
        (case board_get s i j of Some m \<Rightarrow> m \<in> set mine_marks | None \<Rightarrow> False)" for i j
    using fun_cong [OF fun_cong [OF L, of i], of j]
    by (cases "board_get t i j"; cases "board_get s i j")
       (simp_all add: mine_layout_def is_mine_id_def del: mine_marks_iff)
  then show ?thesis
    by (simp add: get_num_mines_def count_neighbors del: mine_marks_iff)
qed

lemma get_num_mines_le_8: "get_num_mines s x y \<le> 8"
proof -
  have "get_num_mines s x y \<le> length (neighbor_candidates x y)"
    unfolding get_num_mines_def count_neighbors by (rule length_filter_le_length)
  then show ?thesis by (simp add: neighbor_candidates_def)
qed

lemma is_mine_id_next_mark [simp]: "is_mine_id (next_mark m) = is_mine_id m"
  by (simp add: is_mine_id_def del: mine_marks_iff)

lemma coords_counters [simp]:
  "coords (s\<lparr>curr_eval := e\<rparr>) = coords s"
  "coords (s\<lparr>curr_mine := c\<rparr>) = coords s"
  "coords (board_set s x y m) = coords s"
  by (simp_all add: coords_def)

lemma get_num_mines_counters [simp]:
  "get_num_mines (s\<lparr>curr_eval := e\<rparr>) x y = get_num_mines s x y"
  "get_num_mines (s\<lparr>curr_mine := c\<rparr>) x y = get_num_mines s x y"
  "get_num_flagged_blocks (s\<lparr>curr_eval := e\<rparr>) x y = get_num_flagged_blocks s x y"
  "get_num_flagged_blocks (s\<lparr>curr_mine := c\<rparr>) x y = get_num_flagged_blocks s x y"
  by (simp_all add: get_num_mines_def get_num_flagged_blocks_def)

lemma board_set_curr_mine [simp]:
  "board_set (s\<lparr>curr_mine := c\<rparr>) x y m = (board_set s x y m)\<lparr>curr_mine := c\<rparr>"
  by (simp add: board_set_def)

lemma mine_layout_counters [simp]:
  "mine_layout (s\<lparr>curr_eval := e\<rparr>) = mine_layout s"
  "mine_layout (s\<lparr>curr_mine := c\<rparr>) = mine_layout s"
  by (simp_all add: mine_layout_def [abs_def])

lemma mine_layout_set [layout_simps]:
  assumes "board_wf s" and "board_get s a b = Some m0" and "is_mine_id m = is_mine_id m0"
  shows "mine_layout (board_set s a b m) = mine_layout s"
  using assms by (auto simp: mine_layout_def board_get_set fun_eq_iff)

end
