(* ===== verification/Sweep.thy ===== *)
theory Sweep
  imports Board
begin

text \<open>
  \<open>one_block_sweep\<close> (\<open>src/mineSweeper.py\<close> lines 209--223), the cascading reveal.
  The Python function recurses into every neighbour of a block with no mine
  around; its loop over the neighbours is the mutually recursive
  \<open>sweep_neighbors\<close>. The recursion is bounded by the interpreter's recursion limit:
  the model's first argument is the number of frames still available, each call
  of \<open>one_block_sweep\<close> takes one, and running out is \<open>RecursionError\<close>.
  The function returns \<open>True\<close> (the game is lost) or \<open>None\<close>, here \<open>False\<close>.

  The lemmas relate the state before and after a sweep by \<open>reveals\<close>: the board
  keeps its shape and its counters but \<open>curr_eval\<close>, and every block that changes
  goes from unrevealed to the count of the mines around it. From it: the mine
  layout is kept, \<open>curr_eval\<close> grows by the number of newly revealed blocks, a
  sweep started on a block without mine never reports a loss, a recursion
  budget larger than the number of unrevealed blocks is enough, and the opened
  region is closed: no block opened as blank keeps an unrevealed neighbour
  (\<open>sweep_closed\<close>).
\<close>

section \<open>Definition\<close>

fun one_block_sweep ::
  "nat \<Rightarrow> mine_model_board \<Rightarrow> int \<Rightarrow> int \<Rightarrow> (bool \<times> mine_model_board) py_result"
and sweep_neighbors ::
  "nat \<Rightarrow> mine_model_board \<Rightarrow> (int \<times> int \<times> mark) list \<Rightarrow> (bool \<times> mine_model_board) py_result"
where
  "one_block_sweep 0 s x y = Inl RecursionError"
| "one_block_sweep (Suc n) s x y =
     (if board_get s x y = Some Mine then Inr (True, s)
      else if board_get s x y \<noteq> Some Unrevealed then Inr (False, s)
      else if get_num_mines s x y = 0 then
        (let s1 = (board_set s x y Blank)\<lparr>curr_eval := curr_eval s + 1\<rparr>
         in sweep_neighbors n s1 (get_neighbors s1 x y))
      else Inr (False, (board_set s x y (Digit (get_num_mines s x y)))
                         \<lparr>curr_eval := curr_eval s + 1\<rparr>))"
| "sweep_neighbors n s [] = Inr (False, s)"
| "sweep_neighbors n s ((i, j, _) # rest) =
     (case one_block_sweep n s i j of
        Inl e \<Rightarrow> Inl e
      | Inr (True, s') \<Rightarrow> Inr (True, s')
      | Inr (False, s') \<Rightarrow> sweep_neighbors n s' rest)"

section \<open>What a sweep changes\<close>

text \<open>The mark a sweep writes on a block with \<open>k\<close> mines around.\<close>

definition count_mark :: "nat \<Rightarrow> mark" where
  "count_mark k = (if k = 0 then Blank else Digit k)"

definition reveals :: "mine_model_board \<Rightarrow> mine_model_board \<Rightarrow> bool" where
  "reveals s t \<longleftrightarrow>
     h t = h s \<and> w t = w s \<and> num_mine t = num_mine s \<and> curr_mine t = curr_mine s
     \<and> board_wf t
     \<and> (\<forall>x y. board_get t x y = board_get s x y
              \<or> (board_get s x y = Some Unrevealed
                 \<and> board_get t x y = Some (count_mark (get_num_mines s x y))))
     \<and> int (count_cells is_revealed t) - curr_eval t
         = int (count_cells is_revealed s) - curr_eval s"

text \<open>
  The state after revealing one block, as both branches of \<open>one_block_sweep\<close>
  write it.
\<close>

definition reveal_block :: "mine_model_board \<Rightarrow> int \<Rightarrow> int \<Rightarrow> mine_model_board" where
  "reveal_block s x y =
     (board_set s x y (count_mark (get_num_mines s x y)))\<lparr>curr_eval := curr_eval s + 1\<rparr>"

text \<open>
  Every revealed block shows the number of mines around it (\<open>"B"\<close> for none):
  the invariant that makes the numbers on the board trustworthy.
\<close>

definition digits_ok :: "mine_model_board \<Rightarrow> bool" where
  "digits_ok s \<longleftrightarrow>
     list_all (\<lambda>(x, y). case board_get s x y of
                         None \<Rightarrow> True
                       | Some m \<Rightarrow> is_revealed m \<longrightarrow> m = count_mark (get_num_mines s x y))
              (coords s)"

text \<open>
  The closure a flood fill leaves behind: every block that went from unrevealed
  (in \<open>s\<close>) to blank (in \<open>t\<close>) has no unrevealed neighbour in \<open>t\<close>.
\<close>

definition sweep_closed :: "mine_model_board \<Rightarrow> mine_model_board \<Rightarrow> bool" where
  "sweep_closed s t \<longleftrightarrow>
     list_all (\<lambda>(x, y). board_get s x y = Some Unrevealed \<and> board_get t x y = Some Blank \<longrightarrow>
                 list_all (\<lambda>(i, j). board_get t i j \<noteq> Some Unrevealed) (neighbor_candidates x y))
              (coords s)"

lemma count_mark_simps [simp]:
  "count_mark k \<noteq> Unrevealed" "is_revealed (count_mark k)" "\<not> is_mine_id (count_mark k)"
  by (simp_all add: count_mark_def is_mine_id_def)

lemma reveals_layout:
  assumes "reveals s t"
  shows "mine_layout t = mine_layout s"
proof (intro ext)
  fix x y
  from assms have "board_get t x y = board_get s x y
      \<or> (board_get s x y = Some Unrevealed
         \<and> board_get t x y = Some (count_mark (get_num_mines s x y)))"
    by (simp add: reveals_def)
  then show "mine_layout t x y = mine_layout s x y"
    by (auto simp: mine_layout_def is_mine_id_def count_mark_def)
qed

lemma reveals_refl: "board_wf s \<Longrightarrow> reveals s s"
  by (simp add: reveals_def)

lemma reveals_trans:
  assumes st: "reveals s t" and tu: "reveals t u"
  shows "reveals s u"
proof -
  have L: "get_num_mines t x y = get_num_mines s x y" for x y
    using reveals_layout [OF st] by (rule get_num_mines_layout)
  have "board_get u x y = board_get s x y
        \<or> (board_get s x y = Some Unrevealed
           \<and> board_get u x y = Some (count_mark (get_num_mines s x y)))" for x y
  proof -
    from st have 1: "board_get t x y = board_get s x y
        \<or> (board_get s x y = Some Unrevealed
           \<and> board_get t x y = Some (count_mark (get_num_mines s x y)))"
      by (simp add: reveals_def)
    from tu have 2: "board_get u x y = board_get t x y
        \<or> (board_get t x y = Some Unrevealed
           \<and> board_get u x y = Some (count_mark (get_num_mines t x y)))"
      by (simp add: reveals_def)
    from 1 2 show ?thesis by (auto simp: L)
  qed
  with st tu show ?thesis by (simp add: reveals_def)
qed

lemma reveals_one:
  assumes wf: "board_wf s" and u: "board_get s x y = Some Unrevealed"
  shows "reveals s ((board_set s x y (count_mark (get_num_mines s x y)))
                      \<lparr>curr_eval := curr_eval s + 1\<rparr>)"
proof -
  let ?t = "board_set s x y (count_mark (get_num_mines s x y))"
  have ib: "in_board s x y" using u by (rule board_get_in_board)
  have cnt: "int (count_cells is_revealed ?t) = int (count_cells is_revealed s) + 1"
    using count_cells_set [OF wf u, of is_revealed] by simp
  have "board_get ?t a b = board_get s a b
        \<or> (board_get s a b = Some Unrevealed
           \<and> board_get ?t a b = Some (count_mark (get_num_mines s a b)))" for a b
    using wf u ib by (auto simp: board_get_set)
  with wf cnt show ?thesis by (simp add: reveals_def board_wf_set)
qed

section \<open>Unfolding one call\<close>

lemma one_block_sweep_Suc_Inr:
  assumes "one_block_sweep (Suc n) s x y = Inr (b, t)"
  shows "(board_get s x y = Some Mine \<and> b \<and> t = s)
       \<or> (board_get s x y \<noteq> Some Mine \<and> board_get s x y \<noteq> Some Unrevealed \<and> \<not> b \<and> t = s)
       \<or> (board_get s x y = Some Unrevealed \<and> get_num_mines s x y = 0
          \<and> sweep_neighbors n (reveal_block s x y) (get_neighbors (reveal_block s x y) x y)
               = Inr (b, t))
       \<or> (board_get s x y = Some Unrevealed \<and> get_num_mines s x y \<noteq> 0
          \<and> \<not> b \<and> t = reveal_block s x y)"
  using assms
  by (auto simp: reveal_block_def count_mark_def Let_def split: if_splits)

lemma sweep_neighbors_Cons_Inr:
  assumes "sweep_neighbors n s ((i, j, m) # rest) = Inr (b, t)"
  shows "(b \<and> one_block_sweep n s i j = Inr (True, t))
       \<or> (\<exists>s'. one_block_sweep n s i j = Inr (False, s') \<and> sweep_neighbors n s' rest = Inr (b, t))"
  using assms by (auto split: sum.splits prod.splits bool.splits)

section \<open>A sweep only reveals\<close>

lemma sweep_reveals:
  "one_block_sweep n s x y = Inr (b, t) \<Longrightarrow> board_wf s \<Longrightarrow> reveals s t"
  "sweep_neighbors n s xs = Inr (b, t) \<Longrightarrow> board_wf s \<Longrightarrow> reveals s t"
proof (induction n s x y and n s xs arbitrary: b t and b t
       rule: one_block_sweep_sweep_neighbors.induct)
  case (1 s x y)
  then show ?case by simp
next
  case (2 n s x y)
  consider "t = s"
    | "board_get s x y = Some Unrevealed" "get_num_mines s x y = 0"
      "sweep_neighbors n (reveal_block s x y) (get_neighbors (reveal_block s x y) x y) = Inr (b, t)"
    | "board_get s x y = Some Unrevealed" "t = reveal_block s x y"
    using one_block_sweep_Suc_Inr [OF "2.prems"(1)] by (elim disjE conjE) simp_all
  then show ?case
  proof cases
    case 1
    with "2.prems"(2) show ?thesis by (simp add: reveals_refl)
  next
    case 2
    have r1: "reveals s (reveal_block s x y)"
      unfolding reveal_block_def using "2.prems"(2) 2(1) by (rule reveals_one)
    then have "board_wf (reveal_block s x y)" by (simp add: reveals_def)
    with 2 have "reveals (reveal_block s x y) t"
      using "2.IH" by (simp add: reveal_block_def count_mark_def)
    with r1 show ?thesis by (rule reveals_trans)
  next
    case 3
    then show ?thesis
      unfolding reveal_block_def using "2.prems"(2) by (simp add: reveals_one)
  qed
next
  case (3 n s)
  then show ?case by (simp add: reveals_refl)
next
  case (4 n s i j m rest)
  from sweep_neighbors_Cons_Inr [OF "4.prems"(1)] show ?case
  proof (elim disjE exE conjE)
    assume "one_block_sweep n s i j = Inr (True, t)"
    then show ?thesis using "4.IH"(1) "4.prems"(2) by blast
  next
    fix s'
    assume s': "one_block_sweep n s i j = Inr (False, s')"
      and rest: "sweep_neighbors n s' rest = Inr (b, t)"
    have r1: "reveals s s'" using "4.IH"(1) s' "4.prems"(2) by blast
    then have "board_wf s'" by (simp add: reveals_def)
    with rest s' have "reveals s' t" using "4.IH"(2) by blast
    with r1 show ?thesis by (rule reveals_trans)
  qed
qed

section \<open>Consequences of \<open>reveals\<close>\<close>

lemma reveals_cell:
  "reveals s t \<Longrightarrow> board_get t x y = board_get s x y
     \<or> (board_get s x y = Some Unrevealed
        \<and> board_get t x y = Some (count_mark (get_num_mines s x y)))"
  by (simp add: reveals_def)

lemma reveals_count_same:
  assumes "reveals s t" and "\<not> P Unrevealed" and "\<And>k. \<not> P (count_mark k)"
  shows "count_cells P t = count_cells P s"
proof -
  have "cell_is P t p = cell_is P s p" for p
    using reveals_cell [OF assms(1), of "fst p" "snd p"] assms(2,3)
    by (auto simp: cell_is_def)
  then have "cell_is P t = cell_is P s" by (rule ext)
  moreover have "coords t = coords s" using assms(1) by (simp add: reveals_def coords_def)
  ultimately show ?thesis by (simp add: count_cells_def)
qed

lemma reveals_unrevealed_le:
  assumes "reveals s t"
  shows "count_cells (\<lambda>m. m = Unrevealed) t \<le> count_cells (\<lambda>m. m = Unrevealed) s"
proof -
  have "cell_is (\<lambda>m. m = Unrevealed) t p \<Longrightarrow> cell_is (\<lambda>m. m = Unrevealed) s p" for p
    using reveals_cell [OF assms, of "fst p" "snd p"] by (auto simp: cell_is_def)
  moreover have "coords t = coords s" using assms by (simp add: reveals_def coords_def)
  ultimately show ?thesis
    unfolding count_cells_def by (metis length_filter_mono_pred)
qed

lemma reveal_block_unrevealed:
  assumes "board_wf s" and "board_get s x y = Some Unrevealed"
  shows "count_cells (\<lambda>m. m = Unrevealed) (reveal_block s x y) + 1
           = count_cells (\<lambda>m. m = Unrevealed) s"
  using count_cells_set [OF assms, of "\<lambda>m. m = Unrevealed" "count_mark (get_num_mines s x y)"]
  by (simp add: reveal_block_def)

lemma zero_mines_neighbors:
  assumes "get_num_mines s x y = 0" and "(i, j, m) \<in> set (get_neighbors s x y)"
  shows "\<not> is_mine_id m"
proof
  assume mine: "is_mine_id m"
  from assms(2) have "(i, j) \<in> set (neighbor_candidates x y)" and "board_get s i j = Some m"
    by (simp_all add: set_get_neighbors)
  with mine have "(i, j) \<in> set (filter (\<lambda>(i, j). case board_get s i j of
                    Some m \<Rightarrow> m \<in> set mine_marks | None \<Rightarrow> False) (neighbor_candidates x y))"
    by (simp add: is_mine_id_def del: mine_marks_iff)
  then have "0 < length (filter (\<lambda>(i, j). case board_get s i j of
                    Some m \<Rightarrow> m \<in> set mine_marks | None \<Rightarrow> False) (neighbor_candidates x y))"
    by (rule length_pos_if_in_set)
  with assms(1) show False
    by (simp add: get_num_mines_def count_neighbors del: mine_marks_iff)
qed

section \<open>A sweep from a block without mine never loses\<close>

lemma sweep_no_loss:
  "one_block_sweep n s x y = Inr (b, t) \<Longrightarrow> board_wf s \<Longrightarrow>
     mine_layout s x y \<noteq> Some True \<Longrightarrow> \<not> b"
  "sweep_neighbors n s xs = Inr (b, t) \<Longrightarrow> board_wf s \<Longrightarrow>
     (\<forall>(i, j, m)\<in>set xs. mine_layout s i j \<noteq> Some True) \<Longrightarrow> \<not> b"
proof (induction n s x y and n s xs arbitrary: b t and b t
       rule: one_block_sweep_sweep_neighbors.induct)
  case (1 s x y)
  then show ?case by simp
next
  case (2 n s x y)
  let ?s1 = "reveal_block s x y"
  from one_block_sweep_Suc_Inr [OF "2.prems"(1)] "2.prems"(3)
  consider "\<not> b"
    | "board_get s x y = Some Unrevealed" "get_num_mines s x y = 0"
      "sweep_neighbors n ?s1 (get_neighbors ?s1 x y) = Inr (b, t)"
    by (auto simp: mine_layout_def is_mine_id_def)
  then show ?case
  proof cases
    case 2
    have r1: "reveals s ?s1"
      unfolding reveal_block_def using "2.prems"(2) 2(1) by (rule reveals_one)
    have L: "mine_layout ?s1 = mine_layout s" using r1 by (rule reveals_layout)
    then have z: "get_num_mines ?s1 x y = 0"
      using 2(2) get_num_mines_layout by metis
    have "\<forall>(i, j, m)\<in>set (get_neighbors ?s1 x y). mine_layout ?s1 i j \<noteq> Some True"
      using zero_mines_neighbors [OF z]
      by (auto simp: set_get_neighbors mine_layout_def)
    moreover have "board_wf ?s1" using r1 by (simp add: reveals_def)
    moreover have "?s1 = (board_set s x y Blank)\<lparr>curr_eval := curr_eval s + 1\<rparr>"
      using 2(2) by (simp add: reveal_block_def count_mark_def)
    ultimately show ?thesis
      using 2 by (intro "2.IH" [of ?s1 b t]) simp_all
  qed
next
  case (3 n s)
  then show ?case by simp
next
  case (4 n s i j m rest)
  have ij: "mine_layout s i j \<noteq> Some True" using "4.prems"(3) by simp
  from sweep_neighbors_Cons_Inr [OF "4.prems"(1)] show ?case
  proof (elim disjE exE conjE)
    assume "b" and "one_block_sweep n s i j = Inr (True, t)"
    with "4.IH"(1) "4.prems"(2) ij show ?thesis by blast
  next
    fix s'
    assume s': "one_block_sweep n s i j = Inr (False, s')"
      and rest: "sweep_neighbors n s' rest = Inr (b, t)"
    have r1: "reveals s s'" using sweep_reveals(1) [OF s' "4.prems"(2)] .
    then have wf': "board_wf s'" and L: "mine_layout s' = mine_layout s"
      by (simp_all add: reveals_def reveals_layout)
    have all': "\<forall>(i, j, m)\<in>set rest. mine_layout s' i j \<noteq> Some True"
      using "4.prems"(3) L by auto
    show ?thesis by (rule "4.IH"(2) [OF s' refl refl rest wf' all'])
  qed
qed

section \<open>Enough recursion budget\<close>

lemma sweep_fuel:
  "count_cells (\<lambda>m. m = Unrevealed) s < n \<Longrightarrow> board_wf s \<Longrightarrow>
     \<exists>r. one_block_sweep n s x y = Inr r"
  "count_cells (\<lambda>m. m = Unrevealed) s < n \<Longrightarrow> board_wf s \<Longrightarrow>
     \<exists>r. sweep_neighbors n s xs = Inr r"
proof (induction n s x y and n s xs rule: one_block_sweep_sweep_neighbors.induct)
  case (1 s x y)
  then show ?case by simp
next
  case (2 n s x y)
  let ?s1 = "reveal_block s x y"
  show ?case
  proof (cases "board_get s x y = Some Unrevealed \<and> get_num_mines s x y = 0")
    case True
    have r1: "reveals s ?s1"
      unfolding reveal_block_def using "2.prems"(2) conjunct1 [OF True] by (rule reveals_one)
    then have "board_wf ?s1" by (simp add: reveals_def)
    moreover have "count_cells (\<lambda>m. m = Unrevealed) ?s1 < n"
      using reveal_block_unrevealed [OF "2.prems"(2) conjunct1 [OF True]] "2.prems"(1)
      by simp
    ultimately show ?thesis
      using "2.IH" True by (simp add: reveal_block_def count_mark_def Let_def)
  next
    case False
    then show ?thesis by auto
  qed
next
  case (3 n s)
  then show ?case by auto
next
  case (4 n s i j m rest)
  obtain b' s' where r: "one_block_sweep n s i j = Inr (b', s')"
    using "4.IH"(1) "4.prems" by auto
  show ?case
  proof (cases b')
    case True
    with r show ?thesis by auto
  next
    case False
    have "reveals s s'" using sweep_reveals(1) [OF r "4.prems"(2)] .
    then have "board_wf s'" and "count_cells (\<lambda>m. m = Unrevealed) s' < n"
      using reveals_unrevealed_le "4.prems"(1) by (fastforce simp: reveals_def)+
    with r False show ?thesis using "4.IH"(2) by simp
  qed
qed

section \<open>The counts on the board stay right\<close>

lemma reveals_digits_ok:
  assumes "digits_ok s" and "reveals s t"
  shows "digits_ok t"
proof -
  have L: "get_num_mines t x y = get_num_mines s x y" for x y
    using reveals_layout [OF assms(2)] by (rule get_num_mines_layout)
  have C: "coords t = coords s" using assms(2) by (simp add: reveals_def coords_def)
  have "case board_get t x y of None \<Rightarrow> True
          | Some m \<Rightarrow> is_revealed m \<longrightarrow> m = count_mark (get_num_mines t x y)"
    if "(x, y) \<in> set (coords s)" for x y
  proof -
    from assms(1) that have "case board_get s x y of None \<Rightarrow> True
          | Some m \<Rightarrow> is_revealed m \<longrightarrow> m = count_mark (get_num_mines s x y)"
      by (auto simp: digits_ok_def list_all_iff)
    with reveals_cell [OF assms(2), of x y] L [of x y] show ?thesis
      by (auto split: option.splits)
  qed
  then show ?thesis by (auto simp: digits_ok_def list_all_iff C)
qed

lemma digits_ok_counters [simp]:
  "digits_ok (s\<lparr>curr_eval := e\<rparr>) = digits_ok s"
  "digits_ok (s\<lparr>curr_mine := c\<rparr>) = digits_ok s"
  by (simp_all add: digits_ok_def cong: option.case_cong)

lemma digits_ok_set:
  assumes "digits_ok s" and "board_wf s" and "mine_layout (board_set s x y m) = mine_layout s"
    and "is_revealed m \<Longrightarrow> m = count_mark (get_num_mines s x y)"
  shows "digits_ok (board_set s x y m)"
proof -
  have L: "get_num_mines (board_set s x y m) a b = get_num_mines s a b" for a b
    using assms(3) by (rule get_num_mines_layout)
  show ?thesis
    using assms(1,2,4)
    by (auto simp: digits_ok_def list_all_iff board_get_set L split: option.splits)
qed

lemma digits_ok_at:
  assumes "digits_ok s" and "board_get s x y = Some m" and "is_revealed m"
  shows "m = count_mark (get_num_mines s x y)"
proof -
  have mem: "(x, y) \<in> set (coords s)" using board_get_in_board [OF assms(2)] by simp
  have all: "\<forall>p\<in>set (coords s). case p of (x, y) \<Rightarrow>
      (case board_get s x y of None \<Rightarrow> True
       | Some m \<Rightarrow> is_revealed m \<longrightarrow> m = count_mark (get_num_mines s x y))"
    using assms(1) by (simp only: digits_ok_def list_all_iff)
  from bspec [OF all mem] assms(2,3) show ?thesis by simp
qed

section \<open>Lemmas: the closure of a flood fill\<close>

lemma reveals_keep:
  "reveals s t \<Longrightarrow> board_get s x y \<noteq> Some Unrevealed \<Longrightarrow> board_get t x y = board_get s x y"
  using reveals_cell [of s t x y] by auto

lemma sweep_closed_refl: "sweep_closed s s"
  by (auto simp: sweep_closed_def list_all_iff)

lemma sweep_closed_compose:
  assumes st: "reveals s t" and tu: "reveals t u" and cl: "sweep_closed t u"
    and new: "\<And>x y. board_get s x y = Some Unrevealed \<Longrightarrow> board_get t x y = Some Blank \<Longrightarrow>
               list_all (\<lambda>(i, j). board_get u i j \<noteq> Some Unrevealed) (neighbor_candidates x y)"
  shows "sweep_closed s u"
proof -
  have ct: "coords t = coords s" using st by (simp add: reveals_def coords_def)
  have H: "list_all (\<lambda>(i, j). board_get u i j \<noteq> Some Unrevealed) (neighbor_candidates x y)"
    if xy: "(x, y) \<in> set (coords s)" and su: "board_get s x y = Some Unrevealed"
      and ub: "board_get u x y = Some Blank" for x y
  proof (cases "board_get t x y = Some Unrevealed")
    case True
    with cl xy ub ct show ?thesis by (auto simp: sweep_closed_def list_all_iff)
  next
    case False
    with tu ub have "board_get t x y = Some Blank" by (simp add: reveals_keep)
    with su show ?thesis by (rule new)
  qed
  show ?thesis unfolding sweep_closed_def list_all_iff using H [unfolded list_all_iff] by blast
qed

lemma sweep_closed_trans:
  assumes st: "reveals s t" and tu: "reveals t u"
    and cl1: "sweep_closed s t" and cl2: "sweep_closed t u"
  shows "sweep_closed s u"
proof (rule sweep_closed_compose [OF st tu cl2])
  fix x y
  assume su: "board_get s x y = Some Unrevealed" and tb: "board_get t x y = Some Blank"
  have "(x, y) \<in> set (coords s)" using su by (auto dest: board_get_in_board)
  with cl1 su tb have "list_all (\<lambda>(i, j). board_get t i j \<noteq> Some Unrevealed) (neighbor_candidates x y)"
    by (auto simp: sweep_closed_def list_all_iff)
  then show "list_all (\<lambda>(i, j). board_get u i j \<noteq> Some Unrevealed) (neighbor_candidates x y)"
    using reveals_keep [OF tu] by (auto simp: list_all_iff)
qed

lemma reveal_block_get:
  assumes "board_wf s" and "board_get s x y = Some Unrevealed"
  shows "board_get (reveal_block s x y) a b =
           (if a = x \<and> b = y then Some (count_mark (get_num_mines s x y)) else board_get s a b)"
  using assms board_get_in_board [OF assms(2)] by (simp add: reveal_block_def board_get_set)

lemma sweep_closed_reveal_block:
  assumes wf: "board_wf s" and u: "board_get s x y = Some Unrevealed"
    and rt: "reveals (reveal_block s x y) t" and cl: "sweep_closed (reveal_block s x y) t"
    and nb: "get_num_mines s x y = 0 \<Longrightarrow>
             \<forall>(i, j, m)\<in>set (get_neighbors (reveal_block s x y) x y). board_get t i j \<noteq> Some Unrevealed"
  shows "sweep_closed s t"
proof (rule sweep_closed_compose [OF _ rt cl])
  show "reveals s (reveal_block s x y)" unfolding reveal_block_def using wf u by (rule reveals_one)
next
  fix a b
  assume sa: "board_get s a b = Some Unrevealed" and ba: "board_get (reveal_block s x y) a b = Some Blank"
  then have ab: "a = x" "b = y" and z: "get_num_mines s x y = 0"
    using reveal_block_get [OF wf u, of a b] by (auto simp: count_mark_def split: if_splits)
  show "list_all (\<lambda>(i, j). board_get t i j \<noteq> Some Unrevealed) (neighbor_candidates a b)"
    unfolding list_all_iff
  proof clarify
    fix i j assume c: "(i, j) \<in> set (neighbor_candidates a b)" and tu: "board_get t i j = Some Unrevealed"
    show False
    proof (cases "board_get (reveal_block s x y) i j")
      case None
      with reveals_cell [OF rt, of i j] tu show False by simp
    next
      case (Some m)
      with c ab have "(i, j, m) \<in> set (get_neighbors (reveal_block s x y) x y)"
        by (simp add: set_get_neighbors)
      with nb [OF z] tu show False by auto
    qed
  qed
qed

lemma sweep_closure:
  "one_block_sweep n s x y = Inr (False, t) \<Longrightarrow> board_wf s \<Longrightarrow>
     sweep_closed s t \<and> board_get t x y \<noteq> Some Unrevealed"
  "sweep_neighbors n s xs = Inr (False, t) \<Longrightarrow> board_wf s \<Longrightarrow>
     sweep_closed s t \<and> (\<forall>(i, j, m)\<in>set xs. board_get t i j \<noteq> Some Unrevealed)"
proof (induction n s x y and n s xs arbitrary: t and t
       rule: one_block_sweep_sweep_neighbors.induct)
  case (1 s x y)
  then show ?case by simp
next
  case (2 n s x y)
  note wf = "2.prems"(2)
  consider "t = s" "board_get s x y \<noteq> Some Unrevealed"
    | "board_get s x y = Some Unrevealed" "get_num_mines s x y = 0"
      "sweep_neighbors n (reveal_block s x y) (get_neighbors (reveal_block s x y) x y) = Inr (False, t)"
    | "board_get s x y = Some Unrevealed" "get_num_mines s x y \<noteq> 0" "t = reveal_block s x y"
    using one_block_sweep_Suc_Inr [OF "2.prems"(1)] by (elim disjE conjE) simp_all
  then show ?case
  proof cases
    case 1
    then show ?thesis by (simp add: sweep_closed_refl)
  next
    case 2
    have r1: "reveals s (reveal_block s x y)"
      unfolding reveal_block_def using wf 2(1) by (rule reveals_one)
    then have wf1: "board_wf (reveal_block s x y)" by (simp add: reveals_def)
    have IH: "sweep_closed (reveal_block s x y) t \<and>
        (\<forall>(i, j, m)\<in>set (get_neighbors (reveal_block s x y) x y). board_get t i j \<noteq> Some Unrevealed)"
      using "2.IH" [of "reveal_block s x y"] 2 wf1
      by (simp add: reveal_block_def count_mark_def)
    have rt: "reveals (reveal_block s x y) t" using sweep_reveals(2) [OF 2(3) wf1] .
    have "board_get (reveal_block s x y) x y = Some Blank"
      using reveal_block_get [OF wf 2(1), of x y] 2(2) by (simp add: count_mark_def)
    then have "board_get t x y = Some Blank" using reveals_keep [OF rt] by simp
    moreover have "sweep_closed s t"
      using sweep_closed_reveal_block [OF wf 2(1) rt] IH by blast
    ultimately show ?thesis by simp
  next
    case 3
    have r1: "reveals s t" unfolding 3(3) reveal_block_def using wf 3(1) by (rule reveals_one)
    then have wf1: "board_wf t" by (simp add: reveals_def)
    have get: "board_get t a b = (if a = x \<and> b = y then Some (Digit (get_num_mines s x y))
                                  else board_get s a b)" for a b
      using reveal_block_get [OF wf 3(1), of a b] 3 by (simp add: count_mark_def)
    have "sweep_closed s t"
    proof (rule sweep_closed_compose [OF r1 reveals_refl [OF wf1] sweep_closed_refl])
      fix a b assume "board_get s a b = Some Unrevealed" "board_get t a b = Some Blank"
      with get [of a b] show "list_all (\<lambda>(i, j). board_get t i j \<noteq> Some Unrevealed)
                                  (neighbor_candidates a b)"
        by (simp split: if_splits)
    qed
    with get [of x y] show ?thesis by simp
  qed
next
  case (3 n s)
  then show ?case by (simp add: sweep_closed_refl)
next
  case (4 n s i j m rest)
  from sweep_neighbors_Cons_Inr [OF "4.prems"(1)] obtain s'
    where s': "one_block_sweep n s i j = Inr (False, s')"
      and rest: "sweep_neighbors n s' rest = Inr (False, t)" by blast
  have r1: "reveals s s'" using sweep_reveals(1) [OF s' "4.prems"(2)] .
  then have wf': "board_wf s'" by (simp add: reveals_def)
  have r2: "reveals s' t" using sweep_reveals(2) [OF rest wf'] .
  have IH1: "sweep_closed s s' \<and> board_get s' i j \<noteq> Some Unrevealed"
    using "4.IH"(1) [OF s' "4.prems"(2)] .
  have IH2: "sweep_closed s' t \<and> (\<forall>(i, j, m)\<in>set rest. board_get t i j \<noteq> Some Unrevealed)"
    using "4.IH"(2) [OF s' refl refl rest wf'] .
  have "board_get t i j \<noteq> Some Unrevealed" using IH1 reveals_keep [OF r2, of i j] by simp
  with IH2 sweep_closed_trans [OF r1 r2] IH1 show ?case by auto
qed

section \<open>Properties of \<open>one_block_sweep\<close>\<close>

text \<open>
  C4: the cascading reveal returns, without \<open>RecursionError\<close>, whenever the
  recursion budget exceeds the number of unrevealed blocks: each nested call is made
  right after one more block was revealed.
\<close>

theorem one_block_sweep_terminates:
  assumes "board_wf s" and "count_cells (\<lambda>m. m = Unrevealed) s < n"
  shows "\<exists>b t. one_block_sweep n s x y = Inr (b, t)"
  using sweep_fuel(1) [OF assms(2,1)] by auto

theorem one_block_sweep_terminates_witness:
  "board_wf ex_board \<and> count_cells (\<lambda>m. m = Unrevealed) ex_board < 9
   \<and> (\<exists>b t. one_block_sweep 9 ex_board 0 0 = Inr (b, t))"
proof -
  have wf: "board_wf ex_board" by code_simp
  have cnt: "count_cells (\<lambda>m. m = Unrevealed) ex_board < 9" by code_simp
  show ?thesis using wf cnt one_block_sweep_terminates [OF wf cnt] by blast
qed

text \<open>
  C5: a sweep changes only unrevealed blocks, each to the number of mines around it
  (\<open>"B"\<close> for none); it keeps the board's size and the other counters, and
  \<open>curr_eval\<close> grows by exactly the number of newly revealed blocks.
\<close>

theorem one_block_sweep_effect:
  assumes "board_wf s" and "one_block_sweep n s x y = Inr (b, t)"
  shows "h t = h s \<and> w t = w s \<and> num_mine t = num_mine s \<and> curr_mine t = curr_mine s
    \<and> (\<forall>a c. board_get t a c = board_get s a c
          \<or> (board_get s a c = Some Unrevealed
             \<and> board_get t a c = Some (count_mark (get_num_mines s a c))))
    \<and> curr_eval t - curr_eval s = int (count_cells is_revealed t) - int (count_cells is_revealed s)"
proof -
  have "reveals s t" using sweep_reveals(1) [OF assms(2,1)] .
  then show ?thesis by (auto simp: reveals_def)
qed

theorem one_block_sweep_effect_witness:
  "board_wf ex_board
   \<and> one_block_sweep 9 ex_board 0 0 =
       Inr (False, ex_board\<lparr>board := [[Blank, Blank, Blank], [Blank, Digit 1, Digit 1],
                                        [Blank, Digit 1, Mine]], curr_eval := 8\<rparr>)
   \<and> curr_eval (ex_board\<lparr>board := [[Blank, Blank, Blank], [Blank, Digit 1, Digit 1],
                                        [Blank, Digit 1, Mine]], curr_eval := 8\<rparr>) - curr_eval ex_board
       = int (count_cells is_revealed (ex_board\<lparr>board := [[Blank, Blank, Blank],
            [Blank, Digit 1, Digit 1], [Blank, Digit 1, Mine]], curr_eval := 8\<rparr>))
         - int (count_cells is_revealed ex_board)"
proof -
  have wf: "board_wf ex_board" by code_simp
  have run: "one_block_sweep 9 ex_board 0 0 =
       Inr (False, ex_board\<lparr>board := [[Blank, Blank, Blank], [Blank, Digit 1, Digit 1],
                                        [Blank, Digit 1, Mine]], curr_eval := 8\<rparr>)"
    by code_simp
  show ?thesis using wf run one_block_sweep_effect [OF wf run] by blast
qed

text \<open>
  C6: a sweep started on a block that holds no mine (or outside the board) never
  reports a loss: the cascade only continues from blocks with no mine around.
\<close>

theorem one_block_sweep_safe:
  assumes "board_wf s" and "mine_layout s x y \<noteq> Some True"
    and "one_block_sweep n s x y = Inr (b, t)"
  shows "\<not> b"
  using sweep_no_loss(1) [OF assms(3,1,2)] .

theorem one_block_sweep_safe_witness:
  "board_wf ex_board \<and> mine_layout ex_board 1 0 \<noteq> Some True
   \<and> one_block_sweep 9 ex_board 1 0 =
       Inr (False, ex_board\<lparr>board := [[Blank, Blank, Blank], [Blank, Digit 1, Digit 1],
                                        [Blank, Digit 1, Mine]], curr_eval := 8\<rparr>)
   \<and> \<not> False"
proof -
  have wf: "board_wf ex_board" by code_simp
  have nm: "mine_layout ex_board 1 0 \<noteq> Some True" by code_simp
  have run: "one_block_sweep 9 ex_board 1 0 =
       Inr (False, ex_board\<lparr>board := [[Blank, Blank, Blank], [Blank, Digit 1, Digit 1],
                                        [Blank, Digit 1, Mine]], curr_eval := 8\<rparr>)"
    by code_simp
  show ?thesis using wf nm run one_block_sweep_safe [OF wf nm run] by blast
qed

text \<open>
  C12: the cascade is a complete flood fill: after a sweep that does not lose, the
  start block is no longer unrevealed, and no block the sweep opened as blank
  (no mine around) has an unrevealed neighbour left, so the opened region is
  bounded by numbered, flagged or marked blocks and the board's edge.
\<close>

theorem one_block_sweep_closed:
  assumes "board_wf s" and "one_block_sweep n s x y = Inr (False, t)"
  shows "sweep_closed s t \<and> board_get t x y \<noteq> Some Unrevealed"
  using sweep_closure(1) [OF assms(2,1)] .

theorem one_block_sweep_closed_witness:
  "board_wf ex_board \<and> one_block_sweep 9 ex_board 0 0 = Inr (False, ex_swept)
   \<and> sweep_closed ex_board ex_swept \<and> board_get ex_swept 0 0 \<noteq> Some Unrevealed"
proof -
  have wf: "board_wf ex_board" by code_simp
  have run: "one_block_sweep 9 ex_board 0 0 = Inr (False, ex_swept)" by code_simp
  show ?thesis using wf run one_block_sweep_closed [OF wf run] by blast
qed

end
