(* ===== verification/Actions.thy ===== *)
theory Actions
  imports Sweep
begin

text \<open>
  The user actions of \<open>MineModelBoard\<close> (\<open>src/mineSweeper.py\<close> lines 131--181)
  and the step that dispatches them, \<open>operation_onestep\<close> (lines 226--243).
  \<open>left_click\<close> and \<open>both_click\<close> may recurse through \<open>one_block_sweep\<close>, so they
  take the recursion budget \<open>n\<close>; \<open>right_click\<close> cannot fail. A Python result
  \<open>True\<close> (lost) or \<open>None\<close> is a \<open>bool\<close>; \<open>operation_onestep\<close> returns the
  source's strings \<open>"lose"\<close>, \<open>"win"\<close>, \<open>""\<close>.

  The invariant \<open>game_inv\<close> ties the counters to the board: the number of blocks
  holding a mine is \<open>num_mine\<close>, \<open>curr_mine\<close> is \<open>num_mine\<close> minus the correct
  flags, \<open>curr_eval\<close> is the number of revealed blocks, every revealed count is
  right. Every action keeps it.
\<close>

section \<open>Actions\<close>

definition left_click ::
  "nat \<Rightarrow> mine_model_board \<Rightarrow> int \<Rightarrow> int \<Rightarrow> (bool \<times> mine_model_board) py_result" where
  "left_click n s x y =
     (if board_get s x y = None then Inr (False, s)
      else if board_get s x y = Some Mine then Inr (True, s)
      else if board_get s x y \<noteq> Some Unrevealed then Inr (False, s)
      else one_block_sweep n s x y)"

text \<open>
  \<open>right_click\<close>: the flag counter goes up when an \<open>"F"\<close> is left and down when one
  is entered. Out of the board \<open>_get\<close> gives \<open>None\<close>, \<open>dct.get(None, None)\<close> is
  \<open>None\<close>, and \<open>_set\<close> out of the board writes nothing.
\<close>

definition right_click :: "mine_model_board \<Rightarrow> int \<Rightarrow> int \<Rightarrow> mine_model_board" where
  "right_click s x y =
     (let mark = board_get s x y;
          s1 = (if mark = Some Flag then s\<lparr>curr_mine := curr_mine s + 1\<rparr> else s);
          s2 = (case mark of None \<Rightarrow> s1 | Some m \<Rightarrow> board_set s1 x y (next_mark m))
      in if board_get s2 x y = Some Flag then s2\<lparr>curr_mine := curr_mine s2 - 1\<rparr> else s2)"

text \<open>The loop of \<open>both_click\<close> over the neighbours (lines 168--172).\<close>

fun chord_sweep ::
  "nat \<Rightarrow> mine_model_board \<Rightarrow> (int \<times> int \<times> mark) list \<Rightarrow> (bool \<times> mine_model_board) py_result" where
  "chord_sweep n s [] = Inr (False, s)"
| "chord_sweep n s ((i, j, m) # rest) =
     (if m \<notin> set flagged_marks then
        (case one_block_sweep n s i j of
           Inl e \<Rightarrow> Inl e
         | Inr (True, s') \<Rightarrow> Inr (True, s')
         | Inr (False, s') \<Rightarrow> chord_sweep n s' rest)
      else chord_sweep n s rest)"

text \<open>
  \<open>both_click\<close>. The test \<open>self._get(x, y) not in "12345678"\<close> is Python's
  substring test, which raises \<open>TypeError\<close> when \<open>_get\<close> answers \<open>None\<close>; the count
  is read back with \<open>int\<close>. With too few flags around, the source only calls
  \<open>psudo_click\<close>, which logs (\<open>psudo_click_targets\<close> are the blocks it logs).
\<close>

definition both_click ::
  "nat \<Rightarrow> mine_model_board \<Rightarrow> int \<Rightarrow> int \<Rightarrow> (bool \<times> mine_model_board) py_result" where
  "both_click n s x y =
     (case board_get s x y of
        None \<Rightarrow> Inl TypeError
      | Some c \<Rightarrow>
          if \<not> str_in (mark_str c) ''12345678'' then Inr (False, s)
          else (case py_int (mark_str c) of
                  None \<Rightarrow> Inl ValueError
                | Some k \<Rightarrow>
                    if int (get_num_flagged_blocks s x y) \<ge> k
                    then chord_sweep n s (get_neighbors s x y)
                    else Inr (False, s)))"

definition psudo_click_targets :: "mine_model_board \<Rightarrow> int \<Rightarrow> int \<Rightarrow> (int \<times> int) list" where
  "psudo_click_targets s x y =
     [(i, j). (i, j, m) \<leftarrow> get_neighbors s x y, m \<in> set [Unrevealed, Mine]]"

text \<open>The outcome test shared by the \<open>left_click\<close> and \<open>both_click\<close> branches.\<close>

definition click_outcome ::
  "(bool \<times> mine_model_board) py_result \<Rightarrow> (string \<times> mine_model_board) py_result" where
  "click_outcome r =
     (case r of
        Inl e \<Rightarrow> Inl e
      | Inr (is_lose, s) \<Rightarrow>
          if is_lose then Inr (''lose'', s)
          else if curr_eval s + num_mine s = h s * w s then Inr (''win'', s)
          else Inr ('''', s))"

definition operation_onestep ::
  "nat \<Rightarrow> mine_model_board \<Rightarrow> string \<Rightarrow> int \<Rightarrow> int \<Rightarrow> (string \<times> mine_model_board) py_result" where
  "operation_onestep n s op x y =
     (if op = ''left_click'' then click_outcome (left_click n s x y)
      else if op = ''right_click'' then Inr ('''', right_click s x y)
      else if op = ''both_click'' then click_outcome (both_click n s x y)
      else Inr ('''', s))"

section \<open>The game invariant\<close>

definition game_inv :: "mine_model_board \<Rightarrow> bool" where
  "game_inv s \<longleftrightarrow>
     board_wf s
     \<and> int (count_cells is_mine_id s) = num_mine s
     \<and> curr_mine s + int (count_cells (\<lambda>m. m = Flag) s) = num_mine s
     \<and> curr_eval s = int (count_cells is_revealed s)
     \<and> digits_ok s"

section \<open>Lemmas: what the invariant gives\<close>

text \<open>Under the invariant every count on the board is between 1 and 8.\<close>

lemma game_inv_digit_range:
  assumes "game_inv s" and "board_get s x y = Some (Digit k)"
  shows "1 \<le> k \<and> k \<le> 8"
proof -
  have "digits_ok s" using assms(1) by (simp add: game_inv_def)
  then have "Digit k = count_mark (get_num_mines s x y)" using digits_ok_at assms(2) by simp
  then show ?thesis using get_num_mines_le_8 [of s x y] by (auto simp: count_mark_def split: if_splits)
qed

text \<open>
  The blocks without a mine are all blocks but the \<open>num_mine\<close> mines: there are
  \<open>h * w - num_mine\<close> of them.
\<close>

lemma game_inv_safe_count:
  assumes "game_inv s"
  shows "int (count_cells (\<lambda>m. \<not> is_mine_id m) s) + num_mine s = h s * w s"
proof -
  let ?safe = "\<lambda>m. \<not> is_mine_id m"
  have wf: "board_wf s" using assms by (simp add: game_inv_def)
  have "count_cells (\<lambda>m. is_mine_id m \<or> ?safe m) s = count_cells is_mine_id s + count_cells ?safe s"
    by (rule count_cells_disj) simp
  moreover have "(\<lambda>m. is_mine_id m \<or> ?safe m) = (\<lambda>_. True)" by auto
  ultimately have "count_cells is_mine_id s + count_cells ?safe s = nat (h s) * nat (w s)"
    using count_cells_all [OF wf] by simp
  moreover have "h s * w s = int (nat (h s) * nat (w s))" using wf by (simp add: board_wf_def)
  moreover have "num_mine s = int (count_cells is_mine_id s)" using assms by (simp add: game_inv_def)
  ultimately show ?thesis by linarith
qed

section \<open>Lemmas: sweeps keep the invariant\<close>

lemma reveals_game_inv:
  assumes "game_inv s" and "reveals s t"
  shows "game_inv t"
proof -
  have "count_cells is_mine_id t = count_cells is_mine_id s"
    using assms(2) by (rule reveals_count_same) (simp_all add: is_mine_id_def count_mark_def)
  moreover have "count_cells (\<lambda>m. m = Flag) t = count_cells (\<lambda>m. m = Flag) s"
    using assms(2) by (rule reveals_count_same) (simp_all add: count_mark_def)
  moreover have "digits_ok t"
    using assms reveals_digits_ok unfolding game_inv_def by blast
  ultimately show ?thesis
    using assms by (auto simp: game_inv_def reveals_def)
qed

lemma chord_sweep_reveals:
  "chord_sweep n s xs = Inr (b, t) \<Longrightarrow> board_wf s \<Longrightarrow> reveals s t"
proof (induction n s xs rule: chord_sweep.induct)
  case (1 n s)
  then show ?case by (simp add: reveals_refl)
next
  case (2 n s i j m rest)
  show ?case
  proof (cases "m \<in> set flagged_marks")
    case True
    then have "chord_sweep n s rest = Inr (b, t)"
      using "2.prems"(1) by (simp del: flagged_marks_iff)
    with True "2.prems"(2) show ?thesis using "2.IH"(2) by (simp del: flagged_marks_iff)
  next
    case False
    then have step: "(case one_block_sweep n s i j of
           Inl e \<Rightarrow> Inl e
         | Inr (True, s') \<Rightarrow> Inr (True, s')
         | Inr (False, s') \<Rightarrow> chord_sweep n s' rest) = Inr (b, t)"
      using "2.prems"(1) by (simp del: flagged_marks_iff)
    show ?thesis
    proof (cases "one_block_sweep n s i j")
      case (Inl e)
      with step show ?thesis by simp
    next
      case (Inr r)
      obtain b' s' where r: "r = (b', s')" by (cases r)
      have r1: "reveals s s'" using sweep_reveals(1) Inr r "2.prems"(2) by blast
      show ?thesis
      proof (cases b')
        case True
        with step Inr r r1 show ?thesis by simp
      next
        case b'False: False
        have wf': "board_wf s'" using r1 by (simp add: reveals_def)
        have rest: "chord_sweep n s' rest = Inr (b, t)" using step Inr r b'False by simp
        have "reveals s' t"
          using "2.IH"(1) [OF False Inr r [symmetric] _ rest wf'] b'False by simp
        with r1 show ?thesis by (rule reveals_trans)
      qed
    qed
  qed
qed

section \<open>Lemmas: each action keeps the invariant\<close>

lemma right_click_out: "\<not> in_board s x y \<Longrightarrow> right_click s x y = s"
  by (simp add: right_click_def board_get_None_iff [symmetric] board_set_out)

lemma right_click_in:
  assumes "board_wf s" and "board_get s x y = Some m"
  shows "right_click s x y =
           (board_set s x y (next_mark m))
             \<lparr>curr_mine := curr_mine s + (if m = Flag then 1 else 0)
                                        - (if next_mark m = Flag then 1 else 0)\<rparr>"
proof -
  have ib: "in_board s x y" using assms(2) by (rule board_get_in_board)
  have g: "board_get (board_set s x y (next_mark m)) x y = Some (next_mark m)"
    using assms(1) ib by (simp add: board_get_set)
  show ?thesis
    using assms g by (cases "m = Flag") (auto simp: right_click_def Let_def next_mark_eq_Flag)
qed

lemma right_click_game_inv:
  assumes inv: "game_inv s"
  shows "game_inv (right_click s x y)"
proof (cases "board_get s x y")
  case None
  then show ?thesis using inv by (simp add: right_click_out board_get_None_iff)
next
  case (Some m)
  have wf: "board_wf s" using inv by (simp add: game_inv_def)
  let ?t = "board_set s x y (next_mark m)"
  have eq: "right_click s x y =
      ?t\<lparr>curr_mine := curr_mine s + (if m = Flag then 1 else 0)
                                  - (if next_mark m = Flag then 1 else 0)\<rparr>"
    using wf Some by (rule right_click_in)
  have mines: "int (count_cells is_mine_id ?t) = int (count_cells is_mine_id s)"
    using count_cells_set [OF wf Some, of is_mine_id "next_mark m"] by simp
  have flags: "int (count_cells (\<lambda>m. m = Flag) ?t) = int (count_cells (\<lambda>m. m = Flag) s)
                 - (if m = Flag then 1 else 0) + (if next_mark m = Flag then 1 else 0)"
    using count_cells_set [OF wf Some, of "\<lambda>m. m = Flag" "next_mark m"] by simp
  have revealed: "int (count_cells is_revealed ?t) = int (count_cells is_revealed s)"
    using count_cells_set [OF wf Some, of is_revealed "next_mark m"] by simp
  have layout: "mine_layout ?t = mine_layout s"
    using wf Some by (rule mine_layout_set) simp
  have "digits_ok ?t"
  proof (rule digits_ok_set [OF _ wf layout])
    show "digits_ok s" using inv by (simp add: game_inv_def)
    assume "is_revealed (next_mark m)"
    then have "is_revealed m" and "next_mark m = m"
      by (simp_all add: next_mark_revealed_id)
    with inv Some show "next_mark m = count_mark (get_num_mines s x y)"
      by (simp add: game_inv_def digits_ok_at)
  qed
  with inv wf mines flags revealed show ?thesis
    by (simp add: eq game_inv_def board_wf_set)
qed

lemma left_click_game_inv:
  assumes "game_inv s" and "left_click n s x y = Inr (b, t)"
  shows "game_inv t"
proof (cases "board_get s x y = Some Unrevealed")
  case True
  then have "one_block_sweep n s x y = Inr (b, t)"
    using assms(2) by (simp add: left_click_def)
  moreover have "board_wf s" using assms(1) by (simp add: game_inv_def)
  ultimately have "reveals s t" by (rule sweep_reveals(1))
  with assms(1) show ?thesis by (rule reveals_game_inv)
next
  case False
  with assms show ?thesis by (auto simp: left_click_def split: if_splits)
qed

lemma both_click_Inr:
  assumes "both_click n s x y = Inr (b, t)"
  shows "t = s \<or> chord_sweep n s (get_neighbors s x y) = Inr (b, t)"
proof (cases "board_get s x y")
  case None
  with assms show ?thesis by (simp add: both_click_def)
next
  case (Some c)
  show ?thesis
  proof (cases "str_in (mark_str c) ''12345678''")
    case False
    with assms Some show ?thesis by (simp add: both_click_def del: str_in.simps)
  next
    case True
    with assms Some show ?thesis
      by (auto simp: both_click_def simp del: str_in.simps split: option.split_asm if_split_asm)
  qed
qed

lemma both_click_game_inv:
  assumes "game_inv s" and "both_click n s x y = Inr (b, t)"
  shows "game_inv t"
  using both_click_Inr [OF assms(2)]
proof
  assume "t = s"
  with assms(1) show ?thesis by simp
next
  assume "chord_sweep n s (get_neighbors s x y) = Inr (b, t)"
  moreover have "board_wf s" using assms(1) by (simp add: game_inv_def)
  ultimately have "reveals s t" by (rule chord_sweep_reveals)
  with assms(1) show ?thesis by (rule reveals_game_inv)
qed

lemma click_outcome_Inr:
  "click_outcome r = Inr (out, t) \<Longrightarrow> \<exists>b. r = Inr (b, t)"
proof (cases r)
  case (Inr p)
  then show "click_outcome r = Inr (out, t) \<Longrightarrow> \<exists>b. r = Inr (b, t)"
    by (cases p) (simp add: click_outcome_def split: if_split_asm)
qed (simp add: click_outcome_def)

lemma operation_onestep_game_inv:
  assumes inv: "game_inv s" and step: "operation_onestep n s op x y = Inr (out, t)"
  shows "game_inv t"
proof -
  consider (l) "op = ''left_click''"
    | (r) "op \<noteq> ''left_click''" "op = ''right_click''"
    | (b) "op \<noteq> ''left_click''" "op \<noteq> ''right_click''" "op = ''both_click''"
    | (other) "op \<noteq> ''left_click''" "op \<noteq> ''right_click''" "op \<noteq> ''both_click''"
    by blast
  then show ?thesis
  proof cases
    case l
    with step have "click_outcome (left_click n s x y) = Inr (out, t)"
      by (simp add: operation_onestep_def)
    then obtain b where "left_click n s x y = Inr (b, t)" by (blast dest: click_outcome_Inr)
    with inv show ?thesis by (rule left_click_game_inv)
  next
    case r
    with step have "t = right_click s x y" by (simp add: operation_onestep_def)
    with inv show ?thesis by (simp add: right_click_game_inv)
  next
    case b
    with step have "click_outcome (both_click n s x y) = Inr (out, t)"
      by (simp add: operation_onestep_def)
    then obtain b where "both_click n s x y = Inr (b, t)" by (blast dest: click_outcome_Inr)
    with inv show ?thesis by (rule both_click_game_inv)
  next
    case other
    with step inv show ?thesis by (simp add: operation_onestep_def)
  qed
qed

section \<open>Lemmas: recursion budget and the branches of \<open>both_click\<close>\<close>

lemma chord_sweep_fuel:
  "count_cells (\<lambda>m. m = Unrevealed) s < n \<Longrightarrow> board_wf s \<Longrightarrow>
     \<exists>r. chord_sweep n s xs = Inr r"
proof (induction n s xs rule: chord_sweep.induct)
  case (1 n s)
  then show ?case by auto
next
  case (2 n s i j m rest)
  show ?case
  proof (cases "m \<in> set flagged_marks")
    case True
    with 2 show ?thesis by (simp del: flagged_marks_iff)
  next
    case False
    obtain r0 where "one_block_sweep n s i j = Inr r0"
      using sweep_fuel(1) [OF "2.prems"] by blast
    moreover obtain b' s' where "r0 = (b', s')" by (cases r0)
    ultimately have r: "one_block_sweep n s i j = Inr (b', s')" by simp
    have "reveals s s'" using sweep_reveals(1) [OF r "2.prems"(2)] .
    then have wf': "board_wf s'" and cnt: "count_cells (\<lambda>m. m = Unrevealed) s' < n"
      using reveals_unrevealed_le "2.prems"(1) by (fastforce simp: reveals_def)+
    show ?thesis
    proof (cases b')
      case True
      with False r show ?thesis by (auto simp del: flagged_marks_iff)
    next
      case b'F: False
      from "2.IH"(1) [OF False r refl _ cnt wf'] b'F
      obtain r' where "chord_sweep n s' rest = Inr r'" by auto
      with False r b'F show ?thesis by (simp del: flagged_marks_iff)
    qed
  qed
qed

lemma str_in_digit_marks: "1 \<le> k \<Longrightarrow> k \<le> 8 \<Longrightarrow> str_in (nat_str k) ''12345678''"
proof -
  assume "1 \<le> k" "k \<le> 8"
  then have "k \<in> set [1..<9]" by auto
  moreover have "list_all (\<lambda>k. str_in (nat_str k) ''12345678'') [1..<9]" by code_simp
  ultimately show ?thesis by (simp add: list_all_iff)
qed

lemma both_click_in_board:
  assumes "in_board s x y"
  shows "both_click n s x y = Inr (False, s)
       \<or> both_click n s x y = chord_sweep n s (get_neighbors s x y)"
proof -
  obtain c where c: "board_get s x y = Some c"
    using assms board_get_None_iff by fastforce
  show ?thesis
  proof (cases c)
    case (Digit k)
    with c show ?thesis by (simp add: both_click_def del: str_in.simps)
  qed (use c in \<open>simp_all add: both_click_def\<close>)
qed

lemma both_click_out: "\<not> in_board s x y \<Longrightarrow> both_click n s x y = Inl TypeError"
  by (simp add: both_click_def board_get_None_iff [symmetric])

lemma click_outcome_Inr_intro: "\<exists>out t. click_outcome (Inr r) = Inr (out, t)"
  by (cases r) (simp add: click_outcome_def)

lemma win_test_count:
  assumes "game_inv s"
  shows "curr_eval s + num_mine s = h s * w s \<longleftrightarrow>
          count_cells is_revealed s = count_cells (\<lambda>m. \<not> is_mine_id m) s"
  using game_inv_safe_count [OF assms] assms by (auto simp: game_inv_def)

lemma revealed_cells_safe:
  "\<forall>p\<in>set (coords s). cell_is is_revealed s p \<longrightarrow> cell_is (\<lambda>m. \<not> is_mine_id m) s p"
  by (auto simp: cell_is_def is_mine_id_def split: option.splits elim: is_revealed.elims)

lemma right_click_step:
  assumes "board_wf t" and "board_get t x y = Some m"
  shows "right_click t x y = (board_set t x y (next_mark m))
            \<lparr>curr_mine := curr_mine t + ((if m = Flag then 1 else 0)
                                          - (if next_mark m = Flag then 1 else 0))\<rparr>"
    and "board_wf (right_click t x y)"
    and "board_get (right_click t x y) x y = Some (next_mark m)"
proof -
  have ib: "in_board t x y" using assms(2) by (rule board_get_in_board)
  show eq: "right_click t x y = (board_set t x y (next_mark m))
            \<lparr>curr_mine := curr_mine t + ((if m = Flag then 1 else 0)
                                          - (if next_mark m = Flag then 1 else 0))\<rparr>"
    using right_click_in [OF assms] by simp
  show "board_wf (right_click t x y)" unfolding eq using assms(1) by (simp add: board_wf_set)
  show "board_get (right_click t x y) x y = Some (next_mark m)"
    unfolding eq using assms(1) ib by (simp add: board_get_set)
qed

lemma left_click_fuel:
  assumes "board_wf s" and "count_cells (\<lambda>m. m = Unrevealed) s < n"
  shows "\<exists>r. left_click n s x y = Inr r"
  using sweep_fuel(1) [OF assms(2,1), of x y] by (auto simp: left_click_def)

lemma both_click_fuel:
  assumes "board_wf s" and "count_cells (\<lambda>m. m = Unrevealed) s < n" and "in_board s x y"
  shows "\<exists>r. both_click n s x y = Inr r"
  using both_click_in_board [OF assms(3), of n] chord_sweep_fuel [OF assms(2,1)] by auto

section \<open>Lemmas: when a double click loses\<close>

lemma reveals_mine_iff:
  "reveals s t \<Longrightarrow> board_get t i j = Some Mine \<longleftrightarrow> board_get s i j = Some Mine"
  using reveals_cell [of s t i j] by (auto simp: count_mark_def split: if_splits)

text \<open>A sweep reports a loss only when it starts on a hidden mine.\<close>

lemma sweep_loss_at_mine:
  assumes "one_block_sweep n s x y = Inr (True, t)" and "board_wf s"
  shows "board_get s x y = Some Mine"
proof (rule ccontr)
  assume nm: "board_get s x y \<noteq> Some Mine"
  show False
  proof (cases "board_get s x y = Some Unrevealed")
    case True
    then have "mine_layout s x y \<noteq> Some True" by (simp add: mine_layout_def is_mine_id_def)
    then show False using sweep_no_loss(1) [OF assms] by blast
  next
    case False
    with nm assms(1) show False by (cases n) auto
  qed
qed

text \<open>
  The loop of \<open>both_click\<close> loses exactly when the list of neighbours it was
  given (read before the loop) holds a hidden mine: the sweeps before it reveal
  only blocks without mine and never touch a mine.
\<close>

lemma chord_sweep_loss_iff:
  "chord_sweep n s xs = Inr (b, t) \<Longrightarrow> board_wf s \<Longrightarrow>
     \<forall>(i, j, m)\<in>set xs. m = Mine \<longleftrightarrow> board_get s i j = Some Mine \<Longrightarrow>
     b \<longleftrightarrow> (\<exists>(i, j, m)\<in>set xs. m = Mine)"
proof (induction n s xs arbitrary: b t rule: chord_sweep.induct)
  case (1 n s)
  then show ?case by simp
next
  case (2 n s i j m rest)
  have hd: "m = Mine \<longleftrightarrow> board_get s i j = Some Mine"
    and tl: "\<forall>(i, j, m)\<in>set rest. m = Mine \<longleftrightarrow> board_get s i j = Some Mine"
    using "2.prems"(3) by auto
  show ?case
  proof (cases "m \<in> set flagged_marks")
    case True
    then have "chord_sweep n s rest = Inr (b, t)"
      using "2.prems"(1) by (simp del: flagged_marks_iff)
    then have "b \<longleftrightarrow> (\<exists>(i, j, m)\<in>set rest. m = Mine)"
      using "2.IH"(2) "2.prems"(2) tl True by (simp del: flagged_marks_iff)
    moreover have "m \<noteq> Mine" using True by auto
    ultimately show ?thesis by simp
  next
    case False
    obtain b' s' where r: "one_block_sweep n s i j = Inr (b', s')"
      using "2.prems"(1) False by (auto simp del: flagged_marks_iff split: sum.splits)
    show ?thesis
    proof (cases b')
      case True
      then have "b" using "2.prems"(1) False r by (simp del: flagged_marks_iff)
      moreover have "m = Mine"
      proof -
        have "one_block_sweep n s i j = Inr (True, s')" using r True by simp
        then show ?thesis using sweep_loss_at_mine "2.prems"(2) hd by blast
      qed
      ultimately show ?thesis by auto
    next
      case b'False: False
      have rv: "reveals s s'" using sweep_reveals(1) [OF r "2.prems"(2)] .
      have wf': "board_wf s'" using rv by (simp add: reveals_def)
      have rest: "chord_sweep n s' rest = Inr (b, t)"
        using "2.prems"(1) False r b'False by (simp del: flagged_marks_iff)
      have tl': "\<forall>(i, j, m)\<in>set rest. m = Mine \<longleftrightarrow> board_get s' i j = Some Mine"
        using tl reveals_mine_iff [OF rv] by auto
      have "b \<longleftrightarrow> (\<exists>(i, j, m)\<in>set rest. m = Mine)"
        using "2.IH"(1) [OF False r refl _ rest wf' tl'] b'False by simp
      moreover have "m \<noteq> Mine"
      proof
        assume "m = Mine"
        then have "board_get s i j = Some Mine" using hd by simp
        then show False using r b'False by (cases n) auto
      qed
      ultimately show ?thesis by simp
    qed
  qed
qed

section \<open>Lemmas: the counters and the win test\<close>

text \<open>\<open>curr_mine\<close> is the number of mines without a correct flag.\<close>

lemma game_inv_curr_mine_bounds:
  assumes "game_inv s"
  shows "0 \<le> curr_mine s \<and> curr_mine s \<le> num_mine s"
proof -
  have "count_cells (\<lambda>m. m = Flag) s \<le> count_cells is_mine_id s"
    by (rule count_cells_mono) (simp add: is_mine_id_def)
  with assms show ?thesis by (simp add: game_inv_def)
qed

text \<open>
  The win test \<open>curr_eval + num_mine == h * w\<close> holds exactly when every block
  without a mine is revealed.
\<close>

lemma win_test_iff:
  assumes "game_inv s"
  shows "curr_eval s + num_mine s = h s * w s \<longleftrightarrow>
           list_all (\<lambda>p. cell_is (\<lambda>m. \<not> is_mine_id m) s p \<longrightarrow> cell_is is_revealed s p)
                    (coords s)"
proof -
  let ?safe = "\<lambda>m. \<not> is_mine_id m"
  have "count_cells is_revealed s = count_cells ?safe s \<longleftrightarrow>
          (\<forall>p\<in>set (coords s). cell_is ?safe s p \<longrightarrow> cell_is is_revealed s p)"
  proof
    assume eq: "count_cells is_revealed s = count_cells ?safe s"
    show "\<forall>p\<in>set (coords s). cell_is ?safe s p \<longrightarrow> cell_is is_revealed s p"
    proof (rule length_filter_eq_imp)
      show "\<forall>p\<in>set (coords s). cell_is is_revealed s p \<longrightarrow> cell_is ?safe s p"
        by (rule revealed_cells_safe)
      show "length (filter (cell_is is_revealed s) (coords s)) =
            length (filter (cell_is ?safe s) (coords s))"
        using eq by (simp only: count_cells_def)
    qed
  next
    assume all: "\<forall>p\<in>set (coords s). cell_is ?safe s p \<longrightarrow> cell_is is_revealed s p"
    have "filter (cell_is is_revealed s) (coords s) = filter (cell_is ?safe s) (coords s)"
    proof (rule filter_cong)
      fix p assume "p \<in> set (coords s)"
      then show "cell_is is_revealed s p = cell_is ?safe s p"
        using all revealed_cells_safe [of s] by blast
    qed simp
    then show "count_cells is_revealed s = count_cells ?safe s" by (simp only: count_cells_def)
  qed
  with win_test_count [OF assms] show ?thesis by (simp only: list_all_iff)
qed

section \<open>Properties of the actions\<close>

text \<open>
  C2: a left click loses exactly when it targets a hidden mine, and a losing click
  changes nothing on the board.
\<close>

theorem left_click_loss_iff:
  assumes "board_wf s" and "left_click n s x y = Inr (b, t)"
  shows "(b \<longleftrightarrow> board_get s x y = Some Mine) \<and> (b \<longrightarrow> t = s)"
proof (cases "board_get s x y = Some Unrevealed")
  case True
  then have run: "one_block_sweep n s x y = Inr (b, t)"
    using assms(2) by (simp add: left_click_def)
  have "mine_layout s x y \<noteq> Some True"
    using True by (simp add: mine_layout_def is_mine_id_def)
  then have "\<not> b" using sweep_no_loss(1) [OF run assms(1)] by blast
  with True show ?thesis by simp
next
  case False
  with assms(2) show ?thesis by (auto simp: left_click_def split: if_split_asm)
qed

theorem left_click_loss_iff_witness:
  "board_wf ex_board \<and> left_click 9 ex_board 2 2 = Inr (True, ex_board)
   \<and> board_get ex_board 2 2 = Some Mine"
proof -
  have wf: "board_wf ex_board" by code_simp
  have run: "left_click 9 ex_board 2 2 = Inr (True, ex_board)" by code_simp
  show ?thesis using wf run left_click_loss_iff [OF wf run] by blast
qed

text \<open>
  C3: the outcome test shared by \<open>left_click\<close> and \<open>both_click\<close> reports a win
  after a click that did not lose exactly when every block without a mine is
  revealed: \<open>curr_eval + num_mine == h * w\<close> counts the right blocks.
\<close>

theorem click_outcome_win_iff:
  assumes "game_inv s"
  shows "click_outcome (Inr (False, s)) = Inr (''win'', s) \<longleftrightarrow>
           list_all (\<lambda>p. cell_is (\<lambda>m. \<not> is_mine_id m) s p \<longrightarrow> cell_is is_revealed s p)
                    (coords s)"
  using win_test_iff [OF assms] by (simp add: click_outcome_def)

theorem click_outcome_win_iff_witness:
  "game_inv ex_swept \<and> click_outcome (Inr (False, ex_swept)) = Inr (''win'', ex_swept) \<and>
     list_all (\<lambda>p. cell_is (\<lambda>m. \<not> is_mine_id m) ex_swept p \<longrightarrow> cell_is is_revealed ex_swept p)
              (coords ex_swept)"
proof -
  have inv: "game_inv ex_swept" by code_simp
  have win: "click_outcome (Inr (False, ex_swept)) = Inr (''win'', ex_swept)" by code_simp
  show ?thesis using inv win click_outcome_win_iff [OF inv] by blast
qed

text \<open>
  C16: right-clicking the same block three times restores the whole state, flag counter
  included: the marks cycle \<open>" " \<rightarrow> "W" \<rightarrow> "!" \<rightarrow> " "\<close> on a block without mine and
  \<open>"X" \<rightarrow> "F" \<rightarrow> "?" \<rightarrow> "X"\<close> on a mine, and revealed blocks are left alone.
\<close>

theorem right_click_cycle:
  assumes "board_wf s"
  shows "right_click (right_click (right_click s x y) x y) x y = s"
proof (cases "board_get s x y")
  case None
  then show ?thesis by (simp add: right_click_out board_get_None_iff)
next
  case (Some m)
  define s1 where "s1 = right_click s x y"
  define s2 where "s2 = right_click s1 x y"
  note r1 = right_click_step [OF assms Some, folded s1_def]
  note r2 = right_click_step [OF r1(2,3), folded s2_def]
  note r3 = right_click_step [OF r2(2,3)]
  have same: "board_set s x y m = s" using assms Some by (rule board_set_same)
  have "right_click s2 x y = (board_set s x y m)\<lparr>curr_mine := curr_mine s\<rparr>"
    unfolding r3(1) unfolding r2(1) unfolding r1(1)
    using assms by (cases m) (simp_all add: board_set_twice board_wf_set)
  then show ?thesis using same by (simp add: s1_def s2_def)
qed

theorem right_click_cycle_witness:
  "board_wf ex_board \<and>
   right_click (right_click (right_click ex_board 2 2) 2 2) 2 2 = ex_board"
proof -
  have wf: "board_wf ex_board" by code_simp
  show ?thesis using wf right_click_cycle [OF wf, of 2 2] by blast
qed

text \<open>
  C17: on a block of the board, no operation raises an exception once the recursion
  budget exceeds the number of unrevealed blocks: \<open>operation_onestep\<close> returns a
  result for every operation name.
\<close>

theorem operation_onestep_no_exception:
  assumes "board_wf s" and "count_cells (\<lambda>m. m = Unrevealed) s < n" and "in_board s x y"
  shows "\<exists>out t. operation_onestep n s op x y = Inr (out, t)"
proof -
  obtain r1 where l: "left_click n s x y = Inr r1" using left_click_fuel [OF assms(1,2)] by blast
  obtain r2 where b: "both_click n s x y = Inr r2" using both_click_fuel [OF assms] by blast
  show ?thesis
    using l b click_outcome_Inr_intro [of r1] click_outcome_Inr_intro [of r2]
    by (simp add: operation_onestep_def)
qed

theorem operation_onestep_no_exception_witness:
  "board_wf ex_swept \<and> count_cells (\<lambda>m. m = Unrevealed) ex_swept < 1 \<and> in_board ex_swept 1 1
   \<and> (\<exists>out t. operation_onestep 1 ex_swept ''both_click'' 1 1 = Inr (out, t))"
proof -
  have wf: "board_wf ex_swept" by code_simp
  have cnt: "count_cells (\<lambda>m. m = Unrevealed) ex_swept < 1" by code_simp
  have ib: "in_board ex_swept 1 1" by code_simp
  show ?thesis using wf cnt ib operation_onestep_no_exception [OF wf cnt ib] by blast
qed

text \<open>
  C18: a double click on a revealed count with fewer flags or marks around than the
  count only logs hints: the state is unchanged.
\<close>

theorem both_click_few_flags:
  assumes "board_get s x y = Some (Digit k)" and "1 \<le> k" and "k \<le> 8"
    and "get_num_flagged_blocks s x y < k"
  shows "both_click n s x y = Inr (False, s)"
  using assms str_in_digit_marks [OF assms(2,3)] by (simp add: both_click_def del: str_in.simps)

theorem both_click_few_flags_witness:
  "board_get ex_swept 1 1 = Some (Digit 1) \<and> 1 \<le> (1::nat) \<and> (1::nat) \<le> 8
   \<and> get_num_flagged_blocks ex_swept 1 1 < 1 \<and> both_click 5 ex_swept 1 1 = Inr (False, ex_swept)"
proof -
  have g: "board_get ex_swept 1 1 = Some (Digit 1)" by code_simp
  have f: "get_num_flagged_blocks ex_swept 1 1 < 1" by code_simp
  show ?thesis using g f both_click_few_flags [OF g _ _ f, of 5] by simp
qed

text \<open>
  C7: under the game invariant a double click loses exactly when it is made on a
  revealed count \<open>k\<close> with at least \<open>k\<close> marked blocks around it and one of
  its neighbours is a hidden mine (\<open>"X"\<close>): a mine under \<open>"F"\<close> or \<open>"?"\<close> is
  protected, a wrong flag lets the chord reach the mine it left unmarked.
\<close>

theorem both_click_loss_iff:
  assumes "game_inv s" and "both_click n s x y = Inr (b, t)"
  shows "b \<longleftrightarrow> (\<exists>k. board_get s x y = Some (Digit k) \<and> k \<le> get_num_flagged_blocks s x y
                   \<and> (\<exists>(i, j, m)\<in>set (get_neighbors s x y). m = Mine))"
proof -
  have wf: "board_wf s" using assms(1) by (simp add: game_inv_def)
  obtain c where c: "board_get s x y = Some c"
    using assms(2) by (cases "board_get s x y") (simp_all add: both_click_def)
  show ?thesis
  proof (cases c)
    case (Digit k)
    have k: "1 \<le> k" "k \<le> 8" using game_inv_digit_range [OF assms(1)] c Digit by auto
    have si: "str_in (nat_str k) ''12345678''" by (rule str_in_digit_marks [OF k])
    show ?thesis
    proof (cases "k \<le> get_num_flagged_blocks s x y")
      case True
      then have ch: "chord_sweep n s (get_neighbors s x y) = Inr (b, t)"
        using assms(2) c Digit si by (simp add: both_click_def del: str_in.simps)
      have "\<forall>(i, j, m)\<in>set (get_neighbors s x y). m = Mine \<longleftrightarrow> board_get s i j = Some Mine"
        by (auto simp: set_get_neighbors)
      with chord_sweep_loss_iff [OF ch wf] True c Digit show ?thesis by simp
    next
      case False
      then have "\<not> b" using assms(2) c Digit si by (simp add: both_click_def del: str_in.simps)
      with False c Digit show ?thesis by simp
    qed
  qed (use assms(2) c in \<open>auto simp: both_click_def\<close>)
qed

theorem both_click_loss_iff_witness:
  "game_inv (ex_board\<lparr>board := [[WrongFlag, Unrevealed, Unrevealed], [Unrevealed, Digit 1, Unrevealed],
                                 [Unrevealed, Unrevealed, Mine]], curr_eval := 1\<rparr>)
   \<and> both_click 9 (ex_board\<lparr>board := [[WrongFlag, Unrevealed, Unrevealed], [Unrevealed, Digit 1, Unrevealed],
                                       [Unrevealed, Unrevealed, Mine]], curr_eval := 1\<rparr>) 1 1
       = Inr (True, ex_board\<lparr>board := [[WrongFlag, Blank, Blank], [Blank, Digit 1, Digit 1],
                                        [Blank, Digit 1, Mine]], curr_eval := 7\<rparr>)
   \<and> get_num_flagged_blocks (ex_board\<lparr>board := [[WrongFlag, Unrevealed, Unrevealed],
        [Unrevealed, Digit 1, Unrevealed], [Unrevealed, Unrevealed, Mine]], curr_eval := 1\<rparr>) 1 1 = 1"
proof -
  let ?s = "ex_board\<lparr>board := [[WrongFlag, Unrevealed, Unrevealed], [Unrevealed, Digit 1, Unrevealed],
                               [Unrevealed, Unrevealed, Mine]], curr_eval := 1\<rparr>"
  let ?t = "ex_board\<lparr>board := [[WrongFlag, Blank, Blank], [Blank, Digit 1, Digit 1],
                               [Blank, Digit 1, Mine]], curr_eval := 7\<rparr>"
  have inv: "game_inv ?s" by code_simp
  have bc: "both_click 9 ?s 1 1 = Inr (True, ?t)" by code_simp
  have f: "get_num_flagged_blocks ?s 1 1 = 1" by code_simp
  show ?thesis using inv bc f both_click_loss_iff [OF inv bc] by blast
qed

text \<open>
  C27: right-clicking an unrevealed block without mine marks it \<open>"W"\<close> and leaves the
  mine counter alone: the counter only moves when an \<open>"F"\<close> is entered or left.
\<close>

theorem right_click_unrevealed:
  assumes "board_wf s" and "board_get s x y = Some Unrevealed"
  shows "right_click s x y = board_set s x y WrongFlag"
  using right_click_in [OF assms] by simp

theorem right_click_unrevealed_witness:
  "board_wf ex_board \<and> board_get ex_board 0 0 = Some Unrevealed
   \<and> right_click ex_board 0 0 = board_set ex_board 0 0 WrongFlag"
proof -
  have wf: "board_wf ex_board" by code_simp
  have g: "board_get ex_board 0 0 = Some Unrevealed" by code_simp
  show ?thesis using wf g right_click_unrevealed [OF wf g] by blast
qed

text \<open>
  C28: a double click outside the board raises \<open>TypeError\<close>: \<open>_get\<close> answers
  \<open>None\<close> and \<open>None not in "12345678"\<close> is a type error in Python. Left and right
  clicks at the same place are no-ops: they return no loss and leave the state
  unchanged.
\<close>

theorem both_click_out_of_board:
  assumes "\<not> in_board s x y"
  shows "both_click n s x y = Inl TypeError
         \<and> left_click n s x y = Inr (False, s) \<and> right_click s x y = s"
  using both_click_out [OF assms] right_click_out [OF assms] assms
  by (simp add: left_click_def board_get_None_iff [symmetric])

theorem both_click_out_of_board_witness:
  "\<not> in_board ex_board 3 0 \<and> both_click 5 ex_board 3 0 = Inl TypeError
   \<and> left_click 5 ex_board 3 0 = Inr (False, ex_board) \<and> right_click ex_board 3 0 = ex_board"
proof -
  have o: "\<not> in_board ex_board 3 0" by code_simp
  show ?thesis using o both_click_out_of_board [OF o] by blast
qed

end
