(* ===== verification/Game.thy ===== *)
theory Game
  imports Actions
begin

text \<open>
  Construction of a board and the console loop of \<open>MineModelBoard\<close>
  (\<open>src/mineSweeper.py\<close>): \<open>__init__\<close> and \<open>_reset\<close> (lines 76--89), and
  \<open>run_input\<close> with its inner \<open>parse_input\<close> (lines 245--288).
  \<open>random.sample\<close> is the one source of nondeterminism of the program; its result
  is a parameter \<open>mines\<close> of \<open>reset_board\<close>, and \<open>sample_ok\<close> says which lists it
  can return. Its \<open>ValueError\<close> for a sample size outside \<open>[0, population]\<close>
  is a branch of the model. The console reads its lines from a list; the end of
  the list is \<open>input()\<close>'s \<open>EOFError\<close>. The printing of \<open>run_input\<close>, \<open>win\<close>
  and \<open>loss\<close> is output only; the model records which of them ended the loop.
  The last group of lemmas shows that the console can always win: a weight of
  the covered safe blocks (\<open>covered_safe_weight\<close>) drops with one right or
  left click of a well-chosen input line.
\<close>

section \<open>Construction: \<open>__init__\<close> and \<open>_reset\<close>\<close>

text \<open>\<open>[[" "] * self.w for i in range(self.h)]\<close>; a negative size gives no rows or cells.\<close>

definition empty_board :: "int \<Rightarrow> int \<Rightarrow> mark list list" where
  "empty_board hh ww = replicate (nat hh) (replicate (nat ww) Unrevealed)"

text \<open>
  The lists \<open>random.sample(list(range(pop)), k)\<close> may return: \<open>k\<close> distinct
  elements of \<open>[0, pop)\<close>.
\<close>

definition sample_ok :: "int \<Rightarrow> int \<Rightarrow> int list \<Rightarrow> bool" where
  "sample_ok pop k mines \<longleftrightarrow>
     distinct mines \<and> list_all (\<lambda>i. 0 \<le> i \<and> i < pop) mines \<and> int (length mines) = k"

text \<open>One turn of the loop of \<open>_reset\<close>: \<open>x, y = idx // self.h, idx % self.h\<close>.\<close>

definition place_mine :: "mine_model_board \<Rightarrow> int \<Rightarrow> mine_model_board" where
  "place_mine s idx = board_set s (idx div h s) (idx mod h s) Mine"

text \<open>
  \<open>_reset\<close> with the sample \<open>mines\<close>. \<open>random.sample\<close> raises \<open>ValueError\<close> when
  the sample size is negative or larger than the population \<open>range(h * w)\<close>.
\<close>

definition reset_board :: "mine_model_board \<Rightarrow> int list \<Rightarrow> mine_model_board py_result" where
  "reset_board s mines =
     (if num_mine s < 0 \<or> max 0 (h s * w s) < num_mine s then Inl ValueError
      else let s1 = s\<lparr>board := empty_board (h s) (w s)\<rparr>;
               s2 = foldl place_mine s1 mines
           in Inr (s2\<lparr>curr_mine := num_mine s2, curr_eval := 0\<rparr>))"

text \<open>\<open>MineModelBoard(width, height, num_mine)\<close>.\<close>

definition init_board :: "int \<Rightarrow> int \<Rightarrow> int \<Rightarrow> int list \<Rightarrow> mine_model_board py_result" where
  "init_board width height k mines =
     reset_board \<lparr>h = height, w = width, num_mine = k, board = [], curr_mine = 0, curr_eval = 0\<rparr>
       mines"

section \<open>The console: \<open>parse_input\<close> and \<open>run_input\<close>\<close>

text \<open>\<open>op_dict\<close> of \<open>parse_input\<close>, in the order a Python dictionary iterates it.\<close>

definition op_dict :: "(string \<times> string list) list" where
  "op_dict = [(''left_click'', [''l'', ''lc'', ''left'']),
              (''right_click'', [''r'', ''rc'', ''right'']),
              (''both_click'', [''b'', ''bc'', ''both''])]"

text \<open>The loop \<open>for key, val in op_dict.items()\<close> with its two \<open>break\<close>s.\<close>

fun resolve_op :: "string \<Rightarrow> (string \<times> string list) list \<Rightarrow> string" where
  "resolve_op op [] = op"
| "resolve_op op ((key, val) # rest) =
     (if key = op then op else if op \<in> set val then key else resolve_op op rest)"

text \<open>
  The first half of \<open>parse_input\<close> (up to its \<open>print\<close>): the words of the
  line with the operation name resolved, \<open>None\<close> for a line of other than two or
  three words.
\<close>

definition parse_words :: "string \<Rightarrow> (string \<times> string \<times> string) option" where
  "parse_words line =
     (let toks = py_split line in
      if length toks \<noteq> 2 \<and> length toks \<noteq> 3 then None
      else let (op, xs, ys) = (if length toks = 2 then (''left_click'', toks ! 0, toks ! 1)
                               else (toks ! 0, toks ! 1, toks ! 2))
           in Some (resolve_op op op_dict, xs, ys))"

text \<open>
  \<open>parse_input\<close>: \<open>None\<close> (\<open>Inr None\<close>) for a line of other than two or three
  words; \<open>int\<close> of a coordinate that is not a number raises \<open>ValueError\<close>.
\<close>

definition parse_input :: "string \<Rightarrow> (string \<times> int \<times> int) option py_result" where
  "parse_input line =
     (case parse_words line of
        None \<Rightarrow> Inr None
      | Some (op, xs, ys) \<Rightarrow>
          (case py_int xs of
             None \<Rightarrow> Inl ValueError
           | Some x \<Rightarrow> (case py_int ys of
                          None \<Rightarrow> Inl ValueError
                        | Some y \<Rightarrow> Inr (Some (op, x - 1, y - 1)))))"

text \<open>How the loop of \<open>run_input\<close> ends without an exception.\<close>

datatype run_end = Quit | Restart | Won | Lost

text \<open>
  \<open>run_input\<close> on the remaining input lines. \<open>op, x, y = parse_input(s)\<close> raises
  \<open>TypeError\<close> when \<open>parse_input\<close> returns \<open>None\<close>. A step result other than
  \<open>"win"\<close> and \<open>"lose"\<close> continues the loop.
\<close>

fun run_input ::
  "nat \<Rightarrow> mine_model_board \<Rightarrow> string list \<Rightarrow> (run_end \<times> mine_model_board) py_result" where
  "run_input n s [] = Inl EOFError"
| "run_input n s (line # rest) =
     (if line = ''q'' then Inr (Quit, s)
      else if line = ''r'' then Inr (Restart, s)
      else (case parse_input line of
              Inl e \<Rightarrow> Inl e
            | Inr None \<Rightarrow> Inl TypeError
            | Inr (Some (op, x, y)) \<Rightarrow>
                (case operation_onestep n s op x y of
                   Inl e \<Rightarrow> Inl e
                 | Inr (res, t) \<Rightarrow>
                     if res = ''win'' then Inr (Won, t)
                     else if res = ''lose'' then Inr (Lost, t)
                     else run_input n t rest)))"

text \<open>
  A measure of the work left to win: covered blocks without a mine, an
  unmarked one weighing 1, one marked \<open>"!"\<close> 2 and one wrongly flagged 3 (the
  right clicks still needed to uncover it, plus one).
\<close>

definition mark_weight :: "mark \<Rightarrow> int" where
  "mark_weight m = (if m = Unrevealed then 1 else 0) + 2 * (if m = MarkSafe then 1 else 0)
                   + 3 * (if m = WrongFlag then 1 else 0)"

definition covered_safe_weight :: "mine_model_board \<Rightarrow> nat" where
  "covered_safe_weight s = count_cells (\<lambda>m. m = Unrevealed) s + 2 * count_cells (\<lambda>m. m = MarkSafe) s
                           + 3 * count_cells (\<lambda>m. m = WrongFlag) s"

section \<open>Lemmas: construction\<close>

lemma place_mine_fields [simp]:
  "h (place_mine s i) = h s" "w (place_mine s i) = w s" "num_mine (place_mine s i) = num_mine s"
  "curr_mine (place_mine s i) = curr_mine s" "curr_eval (place_mine s i) = curr_eval s"
  by (simp_all add: place_mine_def)

lemma decode_in_board:
  assumes "0 \<le> i" and "i < h s * w s" and "0 \<le> h s"
  shows "in_board s (i div h s) (i mod h s)"
proof -
  have hp: "0 < h s" using assms by (cases "h s = 0") auto
  have "i div h s * h s + i mod h s = i" by (rule div_mult_mod_eq)
  moreover have "0 \<le> i mod h s" using hp by simp
  ultimately have "i div h s * h s \<le> i" by linarith
  then have "i div h s * h s < w s * h s" using assms(2) by (simp add: mult.commute)
  then have "i div h s < w s" using hp by simp
  with hp assms(1) show ?thesis by (simp add: in_board_def pos_imp_zdiv_nonneg_iff)
qed

lemma encode_decode:
  assumes "in_board s x y"
  shows "(x * h s + y) div h s = x" and "(x * h s + y) mod h s = y"
  using assms by (simp_all add: in_board_def)

lemma foldl_fields [simp]:
  "h (foldl place_mine s xs) = h s" "w (foldl place_mine s xs) = w s"
  "num_mine (foldl place_mine s xs) = num_mine s"
  by (induction xs arbitrary: s) simp_all

lemma in_board_place_mine [simp]: "in_board (place_mine s i) = in_board s"
  by (simp add: in_board_def fun_eq_iff)

lemma place_mine_get:
  assumes "board_wf s" and "0 \<le> i" and "i < h s * w s"
  shows "board_get (place_mine s i) x y =
           (if in_board s x y \<and> x * h s + y = i then Some Mine else board_get s x y)"
proof -
  have ib: "in_board s (i div h s) (i mod h s)"
    using assms by (intro decode_in_board) (simp_all add: board_wf_def)
  have "x = i div h s \<and> y = i mod h s \<longleftrightarrow> in_board s x y \<and> x * h s + y = i"
  proof
    assume "x = i div h s \<and> y = i mod h s"
    with ib show "in_board s x y \<and> x * h s + y = i" by (simp add: div_mult_mod_eq)
  next
    assume "in_board s x y \<and> x * h s + y = i"
    with encode_decode [of s x y] show "x = i div h s \<and> y = i mod h s" by auto
  qed
  with ib assms(1) show ?thesis by (simp add: place_mine_def board_get_set)
qed

lemma place_mines_get:
  assumes "board_wf s" and "list_all (\<lambda>i. 0 \<le> i \<and> i < h s * w s) mines"
  shows "board_wf (foldl place_mine s mines) \<and>
         board_get (foldl place_mine s mines) x y =
           (if in_board s x y \<and> x * h s + y \<in> set mines then Some Mine else board_get s x y)"
  using assms
proof (induction mines arbitrary: s)
  case (Cons i mines)
  have wf: "board_wf (place_mine s i)"
    using Cons.prems(1) by (simp add: place_mine_def board_wf_set)
  have "list_all (\<lambda>i. 0 \<le> i \<and> i < h (place_mine s i) * w (place_mine s i)) mines"
    using Cons.prems(2) by simp
  with Cons.IH [OF wf] Cons.prems show ?case by (auto simp: place_mine_get)
qed simp

lemma empty_board_get:
  assumes "0 \<le> h s" and "0 \<le> w s"
  shows "board_wf (s\<lparr>board := empty_board (h s) (w s)\<rparr>)"
    and "board_get (s\<lparr>board := empty_board (h s) (w s)\<rparr>) x y =
           (if in_board s x y then Some Unrevealed else None)"
  using assms by (auto simp: board_wf_def board_get_def empty_board_def in_board_def)

lemma reset_board_wf:
  assumes "reset_board s mines = Inr t" and "0 \<le> h s" and "0 \<le> w s"
  shows "board_wf t \<and> h t = h s \<and> w t = w s"
proof -
  define s1 where "s1 = s\<lparr>board := empty_board (h s) (w s)\<rparr>"
  have t: "t = (foldl place_mine s1 mines)\<lparr>curr_mine := num_mine s, curr_eval := 0\<rparr>"
    using assms(1) unfolding reset_board_def Let_def s1_def by (auto split: if_split_asm)
  have "board_wf s1" using empty_board_get(1) [OF assms(2,3)] by (simp add: s1_def)
  then have "board_wf (foldl place_mine s1 mines)"
    by (induction mines arbitrary: s1) (simp_all add: place_mine_def board_wf_set)
  then show ?thesis by (simp add: t s1_def)
qed

lemma reset_board_Inr:
  assumes "reset_board s mines = Inr t" and "0 \<le> h s" and "0 \<le> w s"
    and "list_all (\<lambda>i. 0 \<le> i \<and> i < h s * w s) mines"
  shows "board_wf t \<and> h t = h s \<and> w t = w s \<and> num_mine t = num_mine s
         \<and> curr_mine t = num_mine s \<and> curr_eval t = 0
         \<and> board_get t x y =
             (if in_board s x y then Some (if x * h s + y \<in> set mines then Mine else Unrevealed)
              else None)"
proof -
  define s1 where "s1 = s\<lparr>board := empty_board (h s) (w s)\<rparr>"
  have t: "t = (foldl place_mine s1 mines)\<lparr>curr_mine := num_mine s, curr_eval := 0\<rparr>"
    using assms(1) unfolding reset_board_def Let_def s1_def by (auto split: if_split_asm)
  have wf1: "board_wf s1" using empty_board_get(1) [OF assms(2,3)] by (simp add: s1_def)
  have r: "list_all (\<lambda>i. 0 \<le> i \<and> i < h s1 * w s1) mines" using assms(4) by (simp add: s1_def)
  have ib: "in_board s1 = in_board s" by (simp add: s1_def in_board_def fun_eq_iff)
  note P = place_mines_get [OF wf1 r, of x y]
  show ?thesis
    using P empty_board_get(2) [OF assms(2,3), of x y, folded s1_def]
    by (auto simp: t ib) (simp_all add: s1_def)
qed

lemma count_cells_zero:
  "(\<And>x y m. board_get s x y = Some m \<Longrightarrow> \<not> P m) \<Longrightarrow> count_cells P s = 0"
  by (auto simp: count_cells_def cell_is_def filter_empty_conv split: option.splits)

lemma count_cells_encoded:
  assumes G: "\<And>x y. board_get t x y = (if in_board t x y
                 then Some (if x * h t + y \<in> set mines then Mine else Unrevealed) else None)"
    and r: "list_all (\<lambda>i. 0 \<le> i \<and> i < h t * w t) mines" and hp: "0 \<le> h t"
  shows "count_cells is_mine_id t = card (set mines)"
proof -
  let ?dec = "\<lambda>i. (i div h t, i mod h t)"
  have "{p. cell_is is_mine_id t p} \<inter> set (coords t) = ?dec ` set mines"
  proof (intro equalityI subsetI)
    fix p assume "p \<in> {p. cell_is is_mine_id t p} \<inter> set (coords t)"
    then obtain x y where p: "p = (x, y)" "in_board t x y" "x * h t + y \<in> set mines"
      by (cases p) (auto simp: cell_is_def G is_mine_id_def split: if_splits)
    then show "p \<in> ?dec ` set mines" using encode_decode [OF p(2)] by force
  next
    fix p assume "p \<in> ?dec ` set mines"
    then obtain i where i: "i \<in> set mines" "p = ?dec i" by blast
    with r have ib: "in_board t (i div h t) (i mod h t)"
      by (intro decode_in_board) (simp_all add: list_all_iff hp)
    with i show "p \<in> {p. cell_is is_mine_id t p} \<inter> set (coords t)"
      by (simp add: cell_is_def G is_mine_id_def div_mult_mod_eq)
  qed
  moreover have "inj_on ?dec (set mines)"
    by (rule inj_onI) (metis div_mult_mod_eq prod.inject)
  ultimately show ?thesis
    by (simp add: count_cells_def distinct_length_filter card_image)
qed

lemma sample_ok_le:
  assumes "sample_ok pop k mines"
  shows "0 \<le> k \<and> k \<le> max 0 pop"
proof -
  have "set mines \<subseteq> {0..<pop}" using assms by (auto simp: sample_ok_def list_all_iff)
  then have "card (set mines) \<le> card {0..<pop}" by (intro card_mono) simp_all
  with assms show ?thesis by (auto simp: sample_ok_def distinct_card)
qed

lemma init_board_Inr:
  assumes "0 \<le> width" and "0 \<le> height" and "sample_ok (height * width) k mines"
  obtains s where "init_board width height k mines = Inr s" and "game_inv s"
    and "h s = height" and "w s = width" and "num_mine s = k"
    and "curr_mine s = k" and "curr_eval s = 0"
    and "\<And>x y. board_get s x y = (if in_board s x y
            then Some (if x * height + y \<in> set mines then Mine else Unrevealed) else None)"
proof -
  define s0 where "s0 = \<lparr>h = height, w = width, num_mine = k, board = [],
                           curr_mine = 0, curr_eval = 0\<rparr>"
  have k: "0 \<le> k \<and> k \<le> max 0 (height * width)" using assms(3) by (rule sample_ok_le)
  then have "\<not> (num_mine s0 < 0 \<or> max 0 (h s0 * w s0) < num_mine s0)"
    by (auto simp: s0_def not_less max_def split: if_splits)
  then obtain t where t: "init_board width height k mines = Inr t"
    unfolding init_board_def s0_def [symmetric] reset_board_def if_not_P by simp
  have r: "list_all (\<lambda>i. 0 \<le> i \<and> i < h s0 * w s0) mines"
    using assms(3) by (simp add: sample_ok_def s0_def)
  note R = reset_board_Inr [OF t [unfolded init_board_def, folded s0_def], of _ _]
  have R': "board_wf t" "h t = height" "w t = width" "num_mine t = k" "curr_mine t = k"
    "curr_eval t = 0"
    using R [of 0 0] assms r by (simp_all add: s0_def)
  have G: "board_get t x y = (if in_board t x y
            then Some (if x * height + y \<in> set mines then Mine else Unrevealed) else None)" for x y
  proof -
    have "in_board t = in_board s0" using R'(2,3) by (simp add: in_board_def s0_def fun_eq_iff)
    then show ?thesis using R [of x y] assms r by (simp add: s0_def)
  qed
  have "count_cells is_mine_id t = card (set mines)"
    by (rule count_cells_encoded) (use G r R'(2,3) assms(2) in \<open>simp_all add: s0_def\<close>)
  then have mines: "int (count_cells is_mine_id t) = k"
    using assms(3) by (simp add: sample_ok_def distinct_card)
  have flags: "count_cells (\<lambda>m. m = Flag) t = 0"
    by (rule count_cells_zero) (auto simp: G split: if_splits)
  have rev: "count_cells is_revealed t = 0"
    by (rule count_cells_zero) (auto simp: G split: if_splits)
  have dig: "digits_ok t"
    by (auto simp: digits_ok_def list_all_iff G split: if_splits)
  have "game_inv t" using R' mines flags rev dig by (simp add: game_inv_def)
  from that [OF t this R'(2-6) G] show ?thesis .
qed

section \<open>Lemmas: the console\<close>

lemma split_acc_word:
  "list_all (\<lambda>c. \<not> is_space_chr c) u \<Longrightarrow> split_acc cur (u @ rest) = split_acc (rev u @ cur) rest"
  by (induction u arbitrary: cur) simp_all

lemma py_split_word:
  assumes "u \<noteq> []" and "list_all (\<lambda>c. \<not> is_space_chr c) u"
  shows "py_split u = [u]" and "py_split (u @ CHR '' '' # rest) = u # py_split rest"
  using split_acc_word [OF assms(2), of "[]" "[]"] split_acc_word [OF assms(2), of "[]"] assms(1)
  by (simp_all add: py_split_def is_space_chr_def)

lemma nat_str_no_space: "list_all (\<lambda>c. \<not> is_space_chr c) (nat_str n)"
  using nat_str_digits [of n] by (auto simp: list_all_iff is_digit_chr_def is_space_chr_def)

lemma op_dict_words:
  assumes "(op, als) \<in> set op_dict" and "tok \<in> set (op # als)"
  shows "resolve_op tok op_dict = op" and "tok \<noteq> []"
    and "list_all (\<lambda>c. \<not> is_space_chr c) tok"
proof -
  have "list_all (\<lambda>(op, als). list_all (\<lambda>tok. resolve_op tok op_dict = op \<and> tok \<noteq> []
          \<and> list_all (\<lambda>c. \<not> is_space_chr c) tok) (op # als)) op_dict"
    by code_simp
  with assms show "resolve_op tok op_dict = op" and "tok \<noteq> []"
    and "list_all (\<lambda>c. \<not> is_space_chr c) tok"
    by (fastforce simp: list_all_iff)+
qed

lemma py_split_pair: "py_split (nat_str a @ '' '' @ nat_str b) = [nat_str a, nat_str b]"
  using py_split_word [OF nat_str_not_Nil nat_str_no_space] by simp

lemma parse_input_pair:
  "parse_input (nat_str a @ '' '' @ nat_str b) = Inr (Some (''left_click'', int a - 1, int b - 1))"
proof -
  have "resolve_op ''left_click'' op_dict = ''left_click''" by (simp add: op_dict_def)
  then show ?thesis using py_split_pair [of a b] by (simp add: parse_input_def parse_words_def)
qed

lemma parse_input_word:
  assumes "(op, als) \<in> set op_dict" and "tok \<in> set (op # als)"
  shows "parse_input (tok @ '' '' @ nat_str a @ '' '' @ nat_str b) = Inr (Some (op, int a - 1, int b - 1))"
proof -
  note W = op_dict_words [OF assms]
  have "py_split (tok @ '' '' @ nat_str a @ '' '' @ nat_str b) = [tok, nat_str a, nat_str b]"
    using py_split_pair py_split_word(2) [OF W(2,3)] by simp
  with W(1) show ?thesis by (simp add: parse_input_def parse_words_def)
qed

lemma operation_onestep_win:
  "operation_onestep n s op x y = Inr (''win'', t) \<Longrightarrow> curr_eval t + num_mine t = h t * w t"
  by (auto simp: operation_onestep_def click_outcome_def split: sum.splits prod.splits if_splits)

lemma run_input_Inr:
  assumes "run_input n s (line # rest) = Inr r"
    and "line \<noteq> ''q''" and "line \<noteq> ''r''"
  obtains op x y res t where "operation_onestep n s op x y = Inr (res, t)"
    and "res = ''win'' \<and> r = (Won, t) \<or> res = ''lose'' \<and> r = (Lost, t)
         \<or> res \<noteq> ''win'' \<and> res \<noteq> ''lose'' \<and> run_input n t rest = Inr r"
  using assms
  by (auto split: sum.splits option.splits prod.splits if_splits intro: that)

lemma run_input_game_inv_step:
  assumes "game_inv s" and "run_input n s lines = Inr (e, t)"
  shows "game_inv t"
  using assms
proof (induction lines arbitrary: s)
  case (Cons line rest)
  show ?case
  proof (cases "line = ''q'' \<or> line = ''r''")
    case True
    with Cons.prems show ?thesis by auto
  next
    case False
    then obtain op x y res t' where st: "operation_onestep n s op x y = Inr (res, t')"
      and alt: "res = ''win'' \<and> (e, t) = (Won, t') \<or> res = ''lose'' \<and> (e, t) = (Lost, t')
         \<or> res \<noteq> ''win'' \<and> res \<noteq> ''lose'' \<and> run_input n t' rest = Inr (e, t)"
      using run_input_Inr [OF Cons.prems(2)] False by blast
    have inv': "game_inv t'" using Cons.prems(1) st by (rule operation_onestep_game_inv)
    from alt show ?thesis using inv' Cons.IH [OF inv'] by auto
  qed
qed simp

lemma run_input_won_test:
  "run_input n s lines = Inr (Won, t) \<Longrightarrow> curr_eval t + num_mine t = h t * w t"
proof (induction lines arbitrary: s)
  case (Cons line rest)
  show ?case
  proof (cases "line = ''q'' \<or> line = ''r''")
    case True
    with Cons.prems show ?thesis by auto
  next
    case False
    then obtain op x y res t' where st: "operation_onestep n s op x y = Inr (res, t')"
      and alt: "res = ''win'' \<and> (Won, t) = (Won, t') \<or> res = ''lose'' \<and> (Won, t) = (Lost, t')
         \<or> res \<noteq> ''win'' \<and> res \<noteq> ''lose'' \<and> run_input n t' rest = Inr (Won, t)"
      using run_input_Inr [OF Cons.prems] by blast
    from alt show ?thesis
      using operation_onestep_win [of n s op x y t'] st Cons.IH [of t'] by auto
  qed
qed simp

section \<open>Lemmas: the console can always win\<close>

lemma count_cells_le_area:
  assumes "board_wf s"
  shows "int (count_cells P s) \<le> h s * w s"
proof -
  have "count_cells P s \<le> count_cells (\<lambda>_. True) s" by (rule count_cells_mono) simp
  also have "\<dots> = nat (h s) * nat (w s)" using assms by (rule count_cells_all)
  finally have "int (count_cells P s) \<le> int (nat (h s) * nat (w s))" by (simp only: of_nat_le_iff)
  moreover have "int (nat (h s) * nat (w s)) = h s * w s" using assms by (simp add: board_wf_def)
  ultimately show ?thesis by simp
qed

lemma weight_set:
  assumes "board_wf s" and "board_get s x y = Some m0"
  shows "int (covered_safe_weight (board_set s x y m)) =
           int (covered_safe_weight s) - mark_weight m0 + mark_weight m"
  using count_cells_set [OF assms, of "\<lambda>m. m = Unrevealed" m]
    count_cells_set [OF assms, of "\<lambda>m. m = MarkSafe" m]
    count_cells_set [OF assms, of "\<lambda>m. m = WrongFlag" m]
  by (simp add: covered_safe_weight_def mark_weight_def)

lemma weight_counters [simp]:
  "covered_safe_weight (s\<lparr>curr_mine := c\<rparr>) = covered_safe_weight s"
  "covered_safe_weight (s\<lparr>curr_eval := e\<rparr>) = covered_safe_weight s"
  by (simp_all add: covered_safe_weight_def)

lemma run_input_line:
  assumes "l \<noteq> ''q''" and "l \<noteq> ''r''" and "parse_input l = Inr (Some (op, x, y))"
    and "operation_onestep n s op x y = Inr (res, t)"
  shows "run_input n s (l # rest) =
           (if res = ''win'' then Inr (Won, t) else if res = ''lose'' then Inr (Lost, t)
            else run_input n t rest)"
  using assms by simp

lemma click_lines:
  assumes "0 \<le> x" and "0 \<le> y"
  shows "parse_input (nat_str (nat x + 1) @ '' '' @ nat_str (nat y + 1))
           = Inr (Some (''left_click'', x, y))"
    and "parse_input (''r'' @ '' '' @ nat_str (nat x + 1) @ '' '' @ nat_str (nat y + 1))
           = Inr (Some (''right_click'', x, y))"
    and "nat_str (nat x + 1) @ '' '' @ nat_str (nat y + 1) \<noteq> ''q''"
    and "nat_str (nat x + 1) @ '' '' @ nat_str (nat y + 1) \<noteq> ''r''"
    and "''r'' @ '' '' @ nat_str (nat x + 1) @ '' '' @ nat_str (nat y + 1) \<noteq> ''q''"
    and "''r'' @ '' '' @ nat_str (nat x + 1) @ '' '' @ nat_str (nat y + 1) \<noteq> ''r''"
proof -
  have d: "(''right_click'', [''r'', ''rc'', ''right'']) \<in> set op_dict" by (simp add: op_dict_def)
  show "parse_input (nat_str (nat x + 1) @ '' '' @ nat_str (nat y + 1))
           = Inr (Some (''left_click'', x, y))"
    using parse_input_pair [of "nat x + 1" "nat y + 1"] assms by simp
  show "parse_input (''r'' @ '' '' @ nat_str (nat x + 1) @ '' '' @ nat_str (nat y + 1))
           = Inr (Some (''right_click'', x, y))"
    using parse_input_word [OF d, of "''r''" "nat x + 1" "nat y + 1"] assms by simp
  show "nat_str (nat x + 1) @ '' '' @ nat_str (nat y + 1) \<noteq> ''q''"
    and "nat_str (nat x + 1) @ '' '' @ nat_str (nat y + 1) \<noteq> ''r''"
    and "''r'' @ '' '' @ nat_str (nat x + 1) @ '' '' @ nat_str (nat y + 1) \<noteq> ''q''"
    and "''r'' @ '' '' @ nat_str (nat x + 1) @ '' '' @ nat_str (nat y + 1) \<noteq> ''r''"
    by (auto dest: arg_cong [where f = length])
qed

lemma left_line_step:
  assumes inv: "game_inv s" and fuel: "h s * w s < int n"
    and u: "board_get s x y = Some Unrevealed"
  obtains (won) t where
      "\<And>rest. run_input n s ((nat_str (nat x + 1) @ '' '' @ nat_str (nat y + 1)) # rest) = Inr (Won, t)"
  | (cont) t where "game_inv t" "h t = h s" "w t = w s"
      "covered_safe_weight t < covered_safe_weight s"
      "\<And>rest. run_input n s ((nat_str (nat x + 1) @ '' '' @ nat_str (nat y + 1)) # rest)
                = run_input n t rest"
proof -
  have wf: "board_wf s" using inv by (simp add: game_inv_def)
  have ib: "in_board s x y" using u by (rule board_get_in_board)
  then have xy: "0 \<le> x" "0 \<le> y" by (simp_all add: in_board_def)
  note L = click_lines [OF xy]
  have "int (count_cells (\<lambda>m. m = Unrevealed) s) < int n"
    using count_cells_le_area [OF wf] fuel by (meson le_less_trans)
  then obtain b t where sw: "one_block_sweep n s x y = Inr (b, t)"
    using sweep_fuel(1) [OF _ wf, of n x y] by auto
  have "mine_layout s x y \<noteq> Some True" using u by (simp add: mine_layout_def is_mine_id_def)
  then have nb: "\<not> b" using sweep_no_loss(1) [OF sw wf] by blast
  with sw have swF: "one_block_sweep n s x y = Inr (False, t)" by simp
  have rv: "reveals s t" using sweep_reveals(1) [OF sw wf] .
  have op: "operation_onestep n s ''left_click'' x y = click_outcome (Inr (False, t))"
    using u swF by (simp add: operation_onestep_def left_click_def)
  show ?thesis
  proof (cases "curr_eval t + num_mine t = h t * w t")
    case True
    then have "operation_onestep n s ''left_click'' x y = Inr (''win'', t)"
      using op by (simp add: click_outcome_def)
    then show ?thesis using L(1,3,4) by (intro won) (simp add: run_input_line)
  next
    case False
    then have st: "operation_onestep n s ''left_click'' x y = Inr ('''', t)"
      using op by (simp add: click_outcome_def)
    have inv': "game_inv t" using inv st by (rule operation_onestep_game_inv)
    have ct: "coords t = coords s" using rv by (simp add: reveals_def coords_def)
    have "length (filter (cell_is (\<lambda>m. m = Unrevealed) t) (coords s))
          < length (filter (cell_is (\<lambda>m. m = Unrevealed) s) (coords s))"
    proof (rule length_filter_less)
      show "\<forall>q\<in>set (coords s). cell_is (\<lambda>m. m = Unrevealed) t q \<longrightarrow> cell_is (\<lambda>m. m = Unrevealed) s q"
      proof (intro ballI impI)
        fix q assume "cell_is (\<lambda>m. m = Unrevealed) t q"
        with reveals_cell [OF rv, of "fst q" "snd q"]
        show "cell_is (\<lambda>m. m = Unrevealed) s q" by (auto simp: cell_is_def)
      qed
      show "(x, y) \<in> set (coords s)" using ib by simp
      show "cell_is (\<lambda>m. m = Unrevealed) s (x, y)" using u by (simp add: cell_is_def)
      show "\<not> cell_is (\<lambda>m. m = Unrevealed) t (x, y)"
        using sweep_closure(1) [OF swF wf] by (auto simp: cell_is_def split: option.splits)
    qed
    then have "count_cells (\<lambda>m. m = Unrevealed) t < count_cells (\<lambda>m. m = Unrevealed) s"
      by (simp add: count_cells_def ct)
    moreover have "count_cells (\<lambda>m. m = MarkSafe) t = count_cells (\<lambda>m. m = MarkSafe) s"
      and "count_cells (\<lambda>m. m = WrongFlag) t = count_cells (\<lambda>m. m = WrongFlag) s"
      using rv by (rule reveals_count_same; simp add: count_mark_def)+
    ultimately have "covered_safe_weight t < covered_safe_weight s"
      by (simp add: covered_safe_weight_def)
    moreover have "h t = h s" "w t = w s" using rv by (simp_all add: reveals_def)
    ultimately show ?thesis using inv' st L(1,3,4) by (intro cont) (simp_all add: run_input_line)
  qed
qed

lemma right_line_step:
  assumes inv: "game_inv s" and m: "board_get s x y = Some m"
    and mw: "m = WrongFlag \<or> m = MarkSafe"
  shows "game_inv (right_click s x y) \<and> h (right_click s x y) = h s \<and> w (right_click s x y) = w s
         \<and> covered_safe_weight (right_click s x y) < covered_safe_weight s
         \<and> (\<forall>rest. run_input n s ((''r'' @ '' '' @ nat_str (nat x + 1) @ '' '' @ nat_str (nat y + 1)) # rest)
                  = run_input n (right_click s x y) rest)"
proof -
  have wf: "board_wf s" using inv by (simp add: game_inv_def)
  have ib: "in_board s x y" using m by (rule board_get_in_board)
  then have xy: "0 \<le> x" "0 \<le> y" by (simp_all add: in_board_def)
  note L = click_lines [OF xy]
  have rc: "right_click s x y = (board_set s x y (next_mark m))\<lparr>curr_mine := curr_mine s\<rparr>"
    using right_click_in [OF wf m] mw by auto
  have "int (covered_safe_weight (board_set s x y (next_mark m))) = int (covered_safe_weight s) - 1"
    using weight_set [OF wf m, of "next_mark m"] mw by (auto simp: mark_weight_def)
  then have "covered_safe_weight (right_click s x y) < covered_safe_weight s"
    by (simp add: rc)
  moreover have "operation_onestep n s ''right_click'' x y = Inr ('''', right_click s x y)"
    by (simp add: operation_onestep_def)
  ultimately show ?thesis
    using right_click_game_inv [OF inv, of x y] L(2,5,6) by (simp add: rc run_input_line)
qed

lemma console_final_click:
  assumes inv: "game_inv s"
    and none: "\<forall>p\<in>set (coords s). \<not> cell_is (\<lambda>m. m = Unrevealed \<or> m = MarkSafe \<or> m = WrongFlag) s p"
  shows "run_input n s [''0 0''] = Inr (Won, s)"
proof -
  have "list_all (\<lambda>p. cell_is (\<lambda>m. \<not> is_mine_id m) s p \<longrightarrow> cell_is is_revealed s p) (coords s)"
    unfolding list_all_iff
  proof (intro ballI impI)
    fix p assume p: "p \<in> set (coords s)" and sf: "cell_is (\<lambda>m. \<not> is_mine_id m) s p"
    then obtain m where m: "board_get s (fst p) (snd p) = Some m" "\<not> is_mine_id m"
      by (auto simp: cell_is_def split: option.splits)
    have "m \<noteq> Unrevealed" "m \<noteq> MarkSafe" "m \<noteq> WrongFlag"
      using bspec [OF none p] m(1) by (auto simp: cell_is_def)
    with m show "cell_is is_revealed s p" by (cases m) (simp_all add: cell_is_def is_mine_id_def)
  qed
  then have test: "curr_eval s + num_mine s = h s * w s" using win_test_iff [OF inv] by simp
  have "nat_str 0 @ '' '' @ nat_str 0 = ''0 0''" by code_simp
  then have "parse_input ''0 0'' = Inr (Some (''left_click'', -1, -1))"
    using parse_input_pair [of 0 0] by simp
  moreover have "operation_onestep n s ''left_click'' (-1) (-1) = Inr (''win'', s)"
    using test by (simp add: operation_onestep_def left_click_def click_outcome_def board_get_def)
  ultimately show ?thesis by simp
qed

lemma console_winnable:
  assumes "game_inv s" and "h s * w s < int n"
  shows "\<exists>lines t. run_input n s lines = Inr (Won, t)"
  using assms
proof (induction "covered_safe_weight s" arbitrary: s rule: less_induct)
  case less
  show ?case
  proof (cases "\<exists>p\<in>set (coords s). cell_is (\<lambda>m. m = Unrevealed \<or> m = MarkSafe \<or> m = WrongFlag) s p")
    case True
    then obtain x y m where m: "board_get s x y = Some m"
      and mm: "m = Unrevealed \<or> m = MarkSafe \<or> m = WrongFlag"
      by (auto simp: cell_is_def split: option.splits)
    show ?thesis
    proof (cases "m = Unrevealed")
      case True
      with m have u: "board_get s x y = Some Unrevealed" by simp
      show ?thesis
      proof (cases rule: left_line_step [OF less.prems u, case_names won cont])
        case (won t)
        then show ?thesis by blast
      next
        case (cont t)
        from less.hyps [OF cont(4) cont(1)] cont(2,3) less.prems(2)
        obtain lines u where "run_input n t lines = Inr (Won, u)" by auto
        with cont(5) [of lines] show ?thesis by metis
      qed
    next
      case False
      with mm have mw: "m = WrongFlag \<or> m = MarkSafe" by blast
      note R = right_line_step [OF less.prems(1) m mw, of n]
      from R less.hyps [of "right_click s x y"] less.prems(2)
      obtain lines u where "run_input n (right_click s x y) lines = Inr (Won, u)" by auto
      moreover have "run_input n s ((''r'' @ '' '' @ nat_str (nat x + 1) @ '' '' @ nat_str (nat y + 1)) # lines)
                     = run_input n (right_click s x y) lines" using R by blast
      ultimately show ?thesis by metis
    qed
  next
    case False
    then have "run_input n s [''0 0''] = Inr (Won, s)"
      using console_final_click [OF less.prems(1)] by blast
    then show ?thesis by blast
  qed
qed

section \<open>Properties of construction and of the console\<close>

text \<open>
  C8: a board built by \<open>MineModelBoard(width, height, k)\<close> with a sample that
  \<open>random.sample\<close> can return satisfies the game invariant, shows \<open>k\<close> mines
  remaining and nothing revealed, and holds a mine exactly at the sampled
  positions, \<open>idx = x * height + y\<close>.
\<close>

theorem init_board_sound:
  assumes "0 \<le> width" and "0 \<le> height" and "sample_ok (height * width) k mines"
  shows "\<exists>s. init_board width height k mines = Inr s \<and> game_inv s
             \<and> curr_mine s = k \<and> curr_eval s = 0
             \<and> (\<forall>x y. mine_layout s x y =
                  (if in_board s x y then Some (x * height + y \<in> set mines) else None))"
proof -
  obtain s where s: "init_board width height k mines = Inr s" "game_inv s"
    "curr_mine s = k" "curr_eval s = 0"
    and G: "\<And>x y. board_get s x y = (if in_board s x y
            then Some (if x * height + y \<in> set mines then Mine else Unrevealed) else None)"
    using init_board_Inr [OF assms] by metis
  have "mine_layout s x y = (if in_board s x y then Some (x * height + y \<in> set mines) else None)"
    for x y by (simp add: mine_layout_def G is_mine_id_def)
  with s show ?thesis by blast
qed

theorem init_board_sound_witness:
  "0 \<le> (3::int) \<and> 0 \<le> (3::int) \<and> sample_ok (3 * 3) 1 [8] \<and>
   (\<exists>s. init_board 3 3 1 [8] = Inr s \<and> game_inv s \<and> curr_mine s = 1 \<and> curr_eval s = 0
        \<and> (\<forall>x y. mine_layout s x y =
             (if in_board s x y then Some (x * 3 + y \<in> set [8]) else None)))"
proof -
  have ok: "sample_ok (3 * 3) 1 [8]" by code_simp
  show ?thesis using ok init_board_sound [OF _ _ ok] by simp
qed

text \<open>
  C24: \<open>parse_input\<close> reads a command word or any of its aliases followed by two
  decimal coordinates, and a bare pair of coordinates as a left click, and
  turns the one-based coordinates into zero-based ones.
\<close>

theorem parse_input_command:
  assumes "(op, als) \<in> set op_dict" and "tok \<in> set (op # als)"
  shows "parse_input (tok @ '' '' @ nat_str a @ '' '' @ nat_str b)
           = Inr (Some (op, int a - 1, int b - 1))
         \<and> parse_input (nat_str a @ '' '' @ nat_str b)
           = Inr (Some (''left_click'', int a - 1, int b - 1))"
  using parse_input_pair [of a b] parse_input_word [OF assms, of a b] by simp

theorem parse_input_command_witness:
  "(''both_click'', [''b'', ''bc'', ''both'']) \<in> set op_dict \<and> ''bc'' \<in> set [''both_click'', ''b'', ''bc'', ''both'']
   \<and> parse_input (''bc'' @ '' '' @ nat_str 3 @ '' '' @ nat_str 4) = Inr (Some (''both_click'', 2, 3))
   \<and> parse_input (nat_str 3 @ '' '' @ nat_str 4) = Inr (Some (''left_click'', 2, 3))"
proof -
  have d: "(''both_click'', [''b'', ''bc'', ''both'']) \<in> set op_dict" by (simp add: op_dict_def)
  have t: "''bc'' \<in> set [''both_click'', ''b'', ''bc'', ''both'']" by simp
  show ?thesis using d t parse_input_command [OF d t, of 3 4] by simp
qed

text \<open>
  C29: a line that is neither \<open>q\<close>, \<open>r\<close>, nor two or three words ends the
  console game with \<open>TypeError\<close>: \<open>parse_input\<close> logs "unsupported op" and
  returns \<open>None\<close>, which \<open>op, x, y = ...\<close> cannot unpack.
\<close>

theorem run_input_malformed_line:
  assumes "line \<noteq> ''q''" and "line \<noteq> ''r''"
    and "length (py_split line) \<noteq> 2" and "length (py_split line) \<noteq> 3"
  shows "run_input n s (line # rest) = Inl TypeError"
  using assms by (simp add: parse_input_def parse_words_def)

theorem run_input_malformed_line_witness:
  "''x'' \<noteq> ''q'' \<and> ''x'' \<noteq> ''r'' \<and> length (py_split ''x'') \<noteq> 2 \<and> length (py_split ''x'') \<noteq> 3
   \<and> run_input 1 ex_board [''x'', ''q''] = Inl TypeError"
proof -
  have l: "length (py_split ''x'') = 1" by code_simp
  have "''x'' \<noteq> ''q''" "''x'' \<noteq> ''r''" by simp_all
  with l show ?thesis using run_input_malformed_line [of "''x''"] by simp
qed

text \<open>
  C19: when the console game ends with \<open>win()\<close>, every block without a mine is
  revealed and the game invariant still holds.
\<close>

theorem run_input_won:
  assumes "game_inv s" and "run_input n s lines = Inr (Won, t)"
  shows "game_inv t \<and>
         list_all (\<lambda>p. cell_is (\<lambda>m. \<not> is_mine_id m) t p \<longrightarrow> cell_is is_revealed t p) (coords t)"
proof -
  have inv: "game_inv t" using assms by (rule run_input_game_inv_step)
  with win_test_iff [OF inv] run_input_won_test [OF assms(2)] show ?thesis by simp
qed

theorem run_input_won_witness:
  "game_inv ex_board \<and> run_input 9 ex_board [''1 1''] = Inr (Won, ex_swept) \<and> game_inv ex_swept \<and>
   list_all (\<lambda>p. cell_is (\<lambda>m. \<not> is_mine_id m) ex_swept p \<longrightarrow> cell_is is_revealed ex_swept p)
            (coords ex_swept)"
proof -
  have inv: "game_inv ex_board" by code_simp
  have run: "run_input 9 ex_board [''1 1''] = Inr (Won, ex_swept)" by code_simp
  show ?thesis using inv run run_input_won [OF inv run] by blast
qed

text \<open>
  C32: a board with as many mines as blocks is accepted, and the first left click
  outside it already reports a win: \<open>curr_eval + num_mine == h * w\<close> holds from
  the start.
\<close>

theorem full_board_click_wins:
  assumes "0 \<le> width" and "0 \<le> height" and "sample_ok (height * width) (height * width) mines"
    and "\<not> (0 \<le> x \<and> x < width \<and> 0 \<le> y \<and> y < height)"
  shows "\<exists>s. init_board width height (height * width) mines = Inr s
             \<and> operation_onestep n s ''left_click'' x y = Inr (''win'', s)"
proof -
  obtain s where i: "init_board width height (height * width) mines = Inr s"
    and d: "h s = height" "w s = width" "num_mine s = height * width" "curr_eval s = 0"
  proof (rule init_board_Inr [OF assms(1-3)])
    fix s
    assume "init_board width height (height * width) mines = Inr s" "h s = height" "w s = width"
      "num_mine s = height * width" "curr_eval s = 0"
    then show thesis by (rule that)
  qed
  have "\<not> in_board s x y" using assms(4) d by (simp add: in_board_def)
  with d have "operation_onestep n s ''left_click'' x y = Inr (''win'', s)"
    by (simp add: operation_onestep_def left_click_def click_outcome_def board_get_None_iff)
  with i show ?thesis by blast
qed

theorem full_board_click_wins_witness:
  "0 \<le> (1::int) \<and> 0 \<le> (1::int) \<and> sample_ok (1 * 1) (1 * 1) [0]
   \<and> \<not> (0 \<le> (5::int) \<and> (5::int) < 1 \<and> 0 \<le> (5::int) \<and> (5::int) < 1)
   \<and> (\<exists>s. init_board 1 1 (1 * 1) [0] = Inr s \<and> operation_onestep 1 s ''left_click'' 5 5 = Inr (''win'', s))"
proof -
  have ok: "sample_ok (1 * 1) (1 * 1) [0]" by code_simp
  have o: "\<not> (0 \<le> (5::int) \<and> (5::int) < 1 \<and> 0 \<le> (5::int) \<and> (5::int) < 1)" by simp
  show ?thesis using ok o full_board_click_wins [OF _ _ ok o, of 1] by simp
qed

end
