(* ===== verification/View.thy ===== *)
theory View
  imports Game
begin

text \<open>
  The presentation side of \<open>src/mineSweeper.py\<close>: the text rendering
  \<open>MineModelBoard.output\<close> (lines 196--206), the pixel-to-grid transform and
  mouse dispatch of \<open>MineControlBoard\<close> (lines 291--305), the block geometry and
  colours of \<open>MineViewBoard._draw_block\<close> and \<open>_draw_board\<close> (lines 308--335),
  the configuration dictionaries they read (lines 10--46) and the board the
  entry point builds (lines 355--357). A pygame call is recorded as the value it
  would be given: \<open>_draw_block\<close> returns the rectangle, fill colour and label
  it would draw. The event loop and the program's entry point are in
  \<open>Event_Loop\<close>; the pygame window, fonts and frame pacing are input/output and
  not modelled.
\<close>

section \<open>Configuration\<close>

type_synonym color = "nat \<times> nat \<times> nat"

text \<open>\<open>game_cfg\<close> and \<open>show_cfg\<close> (lines 10--25).\<close>

definition game_cfg_width :: int where "game_cfg_width = 40"
definition game_cfg_height :: int where "game_cfg_height = 25"
definition game_cfg_num_mine :: int where "game_cfg_num_mine = 200"

definition show_width :: int where "show_width = 1200"
definition show_height :: int where "show_height = 750"
definition show_topleft :: "int \<times> int" where "show_topleft = (50, 50)"
definition block_size :: int where "block_size = 25"
definition line_width :: int where "line_width = 1"

text \<open>\<open>color_cfg\<close> (lines 27--46) as an association list, and \<open>color_cfg.get(c, d)\<close>.\<close>

definition color_cfg :: "(string \<times> color) list" where
  "color_cfg =
     [(''psudo'', (150, 150, 150)), ('' '', (127, 127, 127)), (''X'', (127, 127, 127)),
      (''F'', (255, 0, 0)), (''W'', (255, 255, 0)), (''?'', (40, 200, 0)), (''!'', (40, 200, 0)),
      (''B'', (200, 200, 200)), (''number'', (0, 0, 255)),
      (''1'', (0, 0, 255)), (''2'', (0, 255, 0)), (''3'', (255, 0, 0)), (''4'', (0, 255, 255)),
      (''5'', (0, 127, 127)), (''6'', (0, 0, 255)), (''7'', (0, 0, 255)), (''8'', (0, 0, 255))]"

definition color_get :: "string \<Rightarrow> color \<Rightarrow> color" where
  "color_get c d = (case map_of color_cfg c of Some col \<Rightarrow> col | None \<Rightarrow> d)"

section \<open>Text rendering: \<open>output\<close>\<close>

text \<open>The inner function \<open>hidden\<close>: the table \<open>hidden_dct\<close> applied to each block.\<close>

definition hidden :: "mark list \<Rightarrow> string list" where
  "hidden row = map (\<lambda>c. mark_str (hidden_dct c)) row"

text \<open>One row: \<open>'|'.join([''] + hidden(row) + [''])\<close>.\<close>

definition render_row :: "mark list \<Rightarrow> string" where
  "render_row row = py_join ''|'' ([[]] @ hidden row @ [[]])"

definition output_text :: "mine_model_board \<Rightarrow> string" where
  "output_text s =
     (let col_separator = [CHR 0x0A] @ replicate (nat (2 * w s + 1)) (CHR ''-'') @ [CHR 0x0A]
      in py_join col_separator (map render_row (board s)))"

section \<open>Mouse input: \<open>MineControlBoard\<close>\<close>

text \<open>\<open>_axis_2_grid\<close>: Python's \<open>//\<close> is the floor division \<open>div\<close> of \<open>int\<close>.\<close>

definition axis_2_grid :: "int \<Rightarrow> int \<Rightarrow> int \<times> int" where
  "axis_2_grid x y =
     ((x - fst show_topleft) div block_size, (y - snd show_topleft) div block_size)"

text \<open>
  \<open>click\<close>: button 1 calls \<open>left_click(y, x)\<close> and drops its result, button 3
  calls \<open>right_click(y, x)\<close>, any other button does nothing. An exception of
  \<open>left_click\<close> propagates.
\<close>

definition gui_click ::
  "nat \<Rightarrow> mine_model_board \<Rightarrow> int \<Rightarrow> int \<Rightarrow> int \<Rightarrow> mine_model_board py_result" where
  "gui_click n s x y button =
     (let (gx, gy) = axis_2_grid x y
      in if button = 1 then (case left_click n s gy gx of Inl e \<Rightarrow> Inl e | Inr (_, t) \<Rightarrow> Inr t)
         else if button = 3 then Inr (right_click s gy gx)
         else Inr s)"

section \<open>Drawing: \<open>MineViewBoard\<close>\<close>

text \<open>
  What \<open>_draw_block\<close> hands to pygame: the rectangle \<open>Rect(left, top, width,
  height)\<close>, its fill colour, and the label text with its colour and position.
\<close>

datatype drawing = Draw_Block "int \<times> int \<times> int \<times> int" color "(string \<times> color \<times> int \<times> int) option"

text \<open>
  \<open>_draw_block(x, y, mark)\<close>: the mark given, or the block's own; nothing is drawn
  outside the board. A count (\<open>c in "12345678"\<close>) is drawn as a \<open>"B"\<close> block with
  the count as its label; \<open>if number:\<close> skips an empty label.
\<close>

definition draw_block :: "mine_model_board \<Rightarrow> int \<Rightarrow> int \<Rightarrow> string option \<Rightarrow> drawing option" where
  "draw_block s x y mark =
     (case (case mark of Some c \<Rightarrow> Some c | None \<Rightarrow> map_option mark_str (board_get s x y)) of
        None \<Rightarrow> None
      | Some c0 \<Rightarrow>
          (let top = fst show_topleft + x * block_size;
               left = snd show_topleft + y * block_size;
               fill_size = block_size - line_width;
               (c, number) = (if str_in c0 ''12345678'' then (''B'', c0) else (c0, []));
               color = color_get c (0, 0, 0)
           in Some (Draw_Block (left, top, fill_size, fill_size) color
                     (if number \<noteq> []
                      then Some (number, color_get number (color_get ''number'' (0, 0, 0)),
                                 left + 6, top + 6)
                      else None))))"

text \<open>\<open>_draw_board\<close>: every block, column by column.\<close>

definition draw_board :: "mine_model_board \<Rightarrow> drawing list" where
  "draw_board s =
     List.map_filter (\<lambda>(x, y). draw_block s x y None)
       [(x, y). x \<leftarrow> [0..w s - 1], y \<leftarrow> [0..h s - 1]]"

section \<open>The entry point\<close>

text \<open>
  \<open>MineViewBoard(game_cfg["height"], game_cfg["width"], game_cfg["num_mine"])\<close>:
  the configured height is passed as the width and the width as the height.
\<close>

definition main_board :: "int list \<Rightarrow> mine_model_board py_result" where
  "main_board mines = init_board game_cfg_height game_cfg_width game_cfg_num_mine mines"

text \<open>A rectangle lies in the window of \<open>create_screen(show_cfg["width"], show_cfg["height"])\<close>.\<close>

definition in_screen :: "drawing \<Rightarrow> bool" where
  "in_screen d = (case d of Draw_Block (l, t, wd, ht) _ _ \<Rightarrow>
     0 \<le> l \<and> l + wd \<le> show_width \<and> 0 \<le> t \<and> t + ht \<le> show_height)"

section \<open>Lemmas: geometry\<close>

text \<open>The first 200 positions: a sample \<open>random.sample\<close> can return for the configured board.\<close>

lemma sample_ok_range: "sample_ok 1000 200 [0..199]"
  by (simp add: sample_ok_def list_all_iff)


lemma draw_block_rect:
  "draw_block s x y mark = Some (Draw_Block r col lab) \<Longrightarrow>
     r = (50 + y * 25, 50 + x * 25, 24, 24)"
  unfolding draw_block_def Let_def show_topleft_def block_size_def line_width_def
  by (auto split: option.splits if_splits)

lemma div_block:
  assumes "k * 25 \<le> a" and "a < k * 25 + 25"
  shows "a div 25 = (k :: int)"
proof -
  have "a = (a - k * 25) + k * 25" by simp
  then have "a div 25 = (a - k * 25) div 25 + k" by (metis div_mult_self3 zero_neq_numeral add.commute)
  moreover have "(a - k * 25) div 25 = 0" using assms by (intro div_pos_pos_trivial) simp_all
  ultimately show ?thesis by simp
qed

lemma axis_2_grid_block:
  assumes "50 + y * 25 \<le> px" and "px < 50 + y * 25 + 24"
    and "50 + x * 25 \<le> py" and "py < 50 + x * 25 + 24"
  shows "axis_2_grid px py = (y, x)"
  using assms div_block [of y "px - 50"] div_block [of x "py - 50"]
  by (simp add: axis_2_grid_def show_topleft_def block_size_def)

section \<open>Lemmas: the text rendering\<close>

lemma map_update_same:
  "i < length xs \<Longrightarrow> f v = f (xs ! i) \<Longrightarrow> map f (xs[i := v]) = map f xs"
  by (metis list_update_id map_update nth_map)

text \<open>\<open>output\<close> reads the board only through the table of \<open>hidden\<close>.\<close>

lemma output_text_hidden_view:
  "output_text s =
     py_join ([CHR 0x0A] @ replicate (nat (2 * w s + 1)) (CHR ''-'') @ [CHR 0x0A])
       (map (\<lambda>row. py_join ''|'' ([[]] @ map mark_str row @ [[]])) (map (map hidden_dct) (board s)))"
  by (simp add: output_text_def render_row_def [abs_def] hidden_def comp_def Let_def)

text \<open>Two marks that \<open>hidden\<close> shows alike give the same \<open>output()\<close> wherever they are written.\<close>

lemma output_text_set_view:
  "hidden_dct m = hidden_dct m' \<Longrightarrow> output_text (board_set s x y m) = output_text (board_set s x y m')"
  by (auto simp: output_text_hidden_view board_set_def map_update)

lemma board_set_hidden_view:
  assumes "board_wf s" and "board_get s x y = Some m" and "hidden_dct m' = hidden_dct m"
  shows "map (map hidden_dct) (board (board_set s x y m')) = map (map hidden_dct) (board s)"
proof -
  have ib: "in_board s x y" using assms(2) by (rule board_get_in_board)
  then have r: "nat y < length (board s)" and c: "nat x < length (board s ! nat y)"
    using assms(1) by (auto simp: board_wf_def in_board_def)
  have m: "board s ! nat y ! nat x = m" using assms(2) ib by (simp add: board_get_def in_board_def)
  have inner: "map hidden_dct ((board s ! nat y)[nat x := m']) = map hidden_dct (board s ! nat y)"
    using c m assms(3) by (rule_tac map_update_same) simp_all
  have "map (map hidden_dct) ((board s)[nat y := (board s ! nat y)[nat x := m']])
             = map (map hidden_dct) (board s)"
    using r inner by (rule map_update_same)
  with ib show ?thesis by (simp add: board_set_def in_board_def)
qed

lemma length_py_join:
  "length (py_join sep xs) = sum_list (map length xs) + length sep * (length xs - 1)"
  by (induction sep xs rule: py_join.induct) auto

lemma render_row_length:
  assumes "list_all (\<lambda>m. length (mark_str (hidden_dct m)) = 1) row"
  shows "length (render_row row) = 2 * length row + 1"
proof -
  have "sum_list (map length (hidden row)) = length row"
    using assms by (induction row) (auto simp: hidden_def)
  then show ?thesis by (simp add: render_row_def length_py_join hidden_def)
qed

lemma game_inv_single_char:
  assumes "game_inv s" and "row \<in> set (board s)" and "m \<in> set row"
  shows "length (mark_str (hidden_dct m)) = 1"
proof -
  have wf: "board_wf s" using assms(1) by (simp add: game_inv_def)
  obtain x y where get: "board_get s x y = Some m" using board_get_mem [OF wf assms(2,3)] .
  show ?thesis
  proof (cases m)
    case (Digit k)
    then have "k \<le> 8" using game_inv_digit_range [OF assms(1)] get by blast
    with Digit show ?thesis by (simp add: nat_str.simps)
  qed simp_all
qed

lemma in_set_map_filter: "d \<in> set (List.map_filter f xs) \<Longrightarrow> \<exists>x\<in>set xs. f x = Some d"
  by (auto simp: List.map_filter_def)

lemma gui_click_game_inv:
  assumes "game_inv s" and "gui_click n s px py b = Inr t"
  shows "game_inv t"
proof -
  obtain gx gy where g: "axis_2_grid px py = (gx, gy)" by (cases "axis_2_grid px py")
  consider (l) "b = 1" | (r) "b = 3" | (o) "b \<noteq> 1" "b \<noteq> 3" by blast
  then show ?thesis
  proof cases
    case l
    then obtain c where "left_click n s gy gx = Inr (c, t)"
      using assms(2) g by (auto simp: gui_click_def split: sum.splits)
    with assms(1) show ?thesis by (rule left_click_game_inv)
  next
    case r
    with assms g show ?thesis by (auto simp: gui_click_def intro: right_click_game_inv)
  next
    case o
    with assms g show ?thesis by (simp add: gui_click_def)
  qed
qed

section \<open>Lemmas: the window keeps its size\<close>

lemma draw_board_in_screen:
  assumes "w s = 25" and "h s = 40"
  shows "list_all in_screen (draw_board s)"
proof -
  have "in_screen d" if d: "d \<in> set (draw_board s)" for d
  proof -
    obtain x y where xy: "(x, y) \<in> set [(x, y). x \<leftarrow> [0..w s - 1], y \<leftarrow> [0..h s - 1]]"
      and dr: "draw_block s x y None = Some d"
      using in_set_map_filter [OF d [unfolded draw_board_def]] by auto
    obtain r col lab where dd: "d = Draw_Block r col lab" by (cases d)
    with dr have "r = (50 + y * 25, 50 + x * 25, 24, 24)" by (simp add: draw_block_rect)
    with dd have "d = Draw_Block (50 + y * 25, 50 + x * 25, 24, 24) col lab" by simp
    moreover from xy assms have "0 \<le> x" "x \<le> 24" "0 \<le> y" "y \<le> 39" by auto
    ultimately show ?thesis by (simp add: in_screen_def show_width_def show_height_def)
  qed
  then show ?thesis by (simp add: list_all_iff)
qed

lemma main_board_dims:
  assumes "main_board mines = Inr s"
  shows "board_wf s \<and> w s = 25 \<and> h s = 40"
  using reset_board_wf [OF assms [unfolded main_board_def init_board_def]]
  by (simp add: game_cfg_width_def game_cfg_height_def)

lemma gui_click_wf_dims:
  assumes wf: "board_wf s" and g: "gui_click n s px py b = Inr t"
  shows "board_wf t \<and> h t = h s \<and> w t = w s \<and> num_mine t = num_mine s"
proof -
  obtain gx gy where a: "axis_2_grid px py = (gx, gy)" by (cases "axis_2_grid px py")
  consider (l) c where "b = 1" "left_click n s gy gx = Inr (c, t)"
    | (r) "b = 3" "t = right_click s gy gx" | (o) "t = s"
    using g a by (auto simp: gui_click_def split: if_splits sum.splits)
  then show ?thesis
  proof cases
    case l
    show ?thesis
    proof (cases "board_get s gy gx = Some Unrevealed")
      case True
      with l(2) have "one_block_sweep n s gy gx = Inr (c, t)" by (simp add: left_click_def)
      then have "reveals s t" using wf by (rule sweep_reveals(1))
      then show ?thesis by (simp add: reveals_def)
    next
      case False
      with l(2) wf show ?thesis by (auto simp: left_click_def split: if_splits)
    qed
  next
    case r
    show ?thesis
    proof (cases "board_get s gy gx")
      case None
      with r show ?thesis using wf by (simp add: right_click_out board_get_None_iff [symmetric])
    next
      case (Some m)
      with r wf show ?thesis by (simp add: right_click_in board_wf_set)
    qed
  next
    case o
    with wf show ?thesis by simp
  qed
qed

section \<open>Properties of the presentation\<close>

text \<open>
  C23: a mouse click anywhere inside the square drawn for block \<open>(x, y)\<close> acts on
  that block: the x/y swap of \<open>_draw_block\<close> and the one of \<open>click\<close> cancel.
\<close>

theorem gui_click_roundtrip:
  assumes "draw_block s x y None = Some (Draw_Block (l, t, wd, ht) col lab)"
    and "l \<le> px" and "px < l + wd" and "t \<le> py" and "py < t + ht"
  shows "gui_click n s px py 1 = (case left_click n s x y of Inl e \<Rightarrow> Inl e | Inr (_, u) \<Rightarrow> Inr u)
       \<and> gui_click n s px py 3 = Inr (right_click s x y)"
proof -
  from draw_block_rect [OF assms(1)] have "l = 50 + y * 25" "t = 50 + x * 25" "wd = 24" "ht = 24"
    by simp_all
  with assms(2-5) have "axis_2_grid px py = (y, x)" by (intro axis_2_grid_block) simp_all
  then show ?thesis by (simp add: gui_click_def)
qed

theorem gui_click_roundtrip_witness:
  "draw_block ex_board 1 2 None = Some (Draw_Block (100, 75, 24, 24) (127, 127, 127) None)
   \<and> (100::int) \<le> 110 \<and> (110::int) < 100 + 24 \<and> (75::int) \<le> 80 \<and> (80::int) < 75 + 24
   \<and> gui_click 9 ex_board 110 80 1
       = (case left_click 9 ex_board 1 2 of Inl e \<Rightarrow> Inl e | Inr (_, u) \<Rightarrow> Inr u)
   \<and> gui_click 9 ex_board 110 80 3 = Inr (right_click ex_board 1 2)"
proof -
  have d: "draw_block ex_board 1 2 None = Some (Draw_Block (100, 75, 24, 24) (127, 127, 127) None)"
    by code_simp
  show ?thesis using d gui_click_roundtrip [OF d, of 110 80 9] by simp
qed

text \<open>
  C30: in the window, a left click on a hidden mine changes nothing and the game
  goes on: \<open>click\<close> drops the \<open>True\<close> that \<open>left_click\<close> returns, whereas
  \<open>operation_onestep\<close> reports the same click as \<open>"lose"\<close>.
\<close>

theorem gui_click_ignores_loss:
  assumes "board_get s x y = Some Mine"
  shows "gui_click n s (50 + y * 25) (50 + x * 25) 1 = Inr s
       \<and> operation_onestep n s ''left_click'' x y = Inr (''lose'', s)"
proof -
  have "axis_2_grid (50 + y * 25) (50 + x * 25) = (y, x)" by (rule axis_2_grid_block) simp_all
  with assms show ?thesis
    by (simp add: gui_click_def left_click_def operation_onestep_def click_outcome_def)
qed

theorem gui_click_ignores_loss_witness:
  "board_get ex_board 2 2 = Some Mine
   \<and> gui_click 9 ex_board (50 + 2 * 25) (50 + 2 * 25) 1 = Inr ex_board
   \<and> operation_onestep 9 ex_board ''left_click'' 2 2 = Inr (''lose'', ex_board)"
proof -
  have g: "board_get ex_board 2 2 = Some Mine" by code_simp
  show ?thesis using g gui_click_ignores_loss [OF g, of 9] by simp
qed

text \<open>
  C22: the text rendering cannot tell a mine from an unrevealed block, a wrong
  flag from a flag, or a \<open>"!"\<close> from a \<open>"?"\<close>: whatever the rest of the board,
  writing \<open>"X"\<close> or \<open>" "\<close> (\<open>"W"\<close> or \<open>"F"\<close>, \<open>"!"\<close> or \<open>"?"\<close>) into a block
  gives the same \<open>output()\<close>.
\<close>

theorem output_text_hides_mines:
  "output_text (board_set s x y Mine) = output_text (board_set s x y Unrevealed)
   \<and> output_text (board_set s x y WrongFlag) = output_text (board_set s x y Flag)
   \<and> output_text (board_set s x y MarkSafe) = output_text (board_set s x y MarkMine)"
  by (simp add: output_text_set_view)

text \<open>
  C31: the window does not follow the rule of \<open>output()\<close>: a wrong flag and a
  correct flag look the same in the text, but \<open>_draw_block\<close> fills them with
  different colours (\<open>"W"\<close> yellow, \<open>"F"\<close> red), so the window shows which flags
  are on mines.
\<close>

theorem draw_block_shows_wrong_flag:
  assumes "board_wf s" and "in_board s x y"
  shows "output_text (board_set s x y WrongFlag) = output_text (board_set s x y Flag)
       \<and> draw_block (board_set s x y WrongFlag) x y None \<noteq> draw_block (board_set s x y Flag) x y None"
proof -
  let ?s1 = "board_set s x y Flag"
  have wf1: "board_wf ?s1" using assms(1) by (rule board_wf_set)
  have g1: "board_get ?s1 x y = Some Flag" using assms by (simp add: board_get_set)
  have tw: "board_set ?s1 x y WrongFlag = board_set s x y WrongFlag"
    using assms(1) by (rule board_set_twice)
  have gw: "board_get (board_set s x y WrongFlag) x y = Some WrongFlag"
    using assms by (simp add: board_get_set)
  have "output_text (board_set ?s1 x y WrongFlag) = output_text ?s1"
    using board_set_hidden_view [OF wf1 g1, of WrongFlag]
    by (simp add: output_text_hidden_view [of "board_set ?s1 x y WrongFlag"]
                  output_text_hidden_view [of ?s1])
  moreover have "draw_block (board_set s x y WrongFlag) x y None \<noteq> draw_block ?s1 x y None"
    using gw g1 by (simp add: draw_block_def Let_def color_get_def color_cfg_def)
  ultimately show ?thesis by (simp add: tw)
qed

theorem draw_block_shows_wrong_flag_witness:
  "board_wf ex_board \<and> in_board ex_board 0 0
   \<and> output_text (board_set ex_board 0 0 WrongFlag) = output_text (board_set ex_board 0 0 Flag)
   \<and> draw_block (board_set ex_board 0 0 WrongFlag) 0 0 None
       \<noteq> draw_block (board_set ex_board 0 0 Flag) 0 0 None"
proof -
  have wf: "board_wf ex_board" by code_simp
  have ib: "in_board ex_board 0 0" by code_simp
  show ?thesis using wf ib draw_block_shows_wrong_flag [OF wf ib] by blast
qed

text \<open>
  C25: every row of the text rendering is \<open>2 * w + 1\<close> characters wide, as wide
  as the separator line \<open>'-' * (2 * self.w + 1)\<close> between rows: under the game
  invariant every block is shown by one character (counts are at most 8).
\<close>

theorem render_row_width:
  assumes "game_inv s"
  shows "list_all (\<lambda>row. length (render_row row) = nat (2 * w s + 1)) (board s)"
proof -
  have wf: "board_wf s" using assms by (simp add: game_inv_def)
  have "length (render_row row) = nat (2 * w s + 1)" if row: "row \<in> set (board s)" for row
  proof -
    have "length row = nat (w s)" using wf row by (simp add: board_wf_def)
    moreover have "list_all (\<lambda>m. length (mark_str (hidden_dct m)) = 1) row"
      using game_inv_single_char [OF assms row] by (simp add: list_all_iff)
    moreover have "Suc (2 * nat (w s)) = nat (2 * w s + 1)" using wf by (simp add: board_wf_def nat_add_distrib nat_mult_distrib)
    ultimately show ?thesis by (simp add: render_row_length)
  qed
  then show ?thesis by (simp add: list_all_iff)
qed

theorem render_row_width_witness:
  "game_inv ex_swept
   \<and> list_all (\<lambda>row. length (render_row row) = nat (2 * w ex_swept + 1)) (board ex_swept)"
proof -
  have inv: "game_inv ex_swept" by code_simp
  show ?thesis using inv render_row_width [OF inv] by blast
qed

text \<open>
  C26: the board of the entry point fits the window: \<open>MineViewBoard\<close> is built
  with the configured height (25) as its width and the width (40) as its
  height, and \<open>_draw_block\<close> puts \<open>x\<close> on the vertical axis, so the 25 by 40
  grid of 25-pixel blocks from \<open>(50, 50)\<close> lies inside the 1200 by 750 window.
\<close>

theorem main_board_fits_screen:
  assumes "main_board mines = Inr s"
  shows "list_all in_screen (draw_board s)"
  using main_board_dims [OF assms] draw_board_in_screen by blast

theorem main_board_fits_screen_witness:
  "\<exists>s. main_board [0..199] = Inr s \<and> list_all in_screen (draw_board s)"
proof -
  have ok: "sample_ok (40 * 25) 200 [0..199]" using sample_ok_range by simp
  obtain s where s: "init_board 25 40 200 [0..199] = Inr s"
    using init_board_Inr [OF _ _ ok] by (metis order.refl zero_le_numeral)
  then have m: "main_board [0..199] = Inr s"
    by (simp add: main_board_def game_cfg_width_def game_cfg_height_def game_cfg_num_mine_def)
  show ?thesis using m main_board_fits_screen [OF m] by blast
qed

end
