(* ===== verification/Event_Loop.thy ===== *)
theory Event_Loop
  imports View
begin

text \<open>
  The window's event loop \<open>MineViewBoard.screen_run\<close> (\<open>src/mineSweeper.py\<close>
  lines 340--351) and the program's entry point (lines 355--360), which builds the
  configured board and hands it to the loop. The loop is followed through a list
  of frames, each the list of events \<open>pygame.event.get()\<close> returns in that
  frame. The lemmas show that, with the configured board of 40 by 25 blocks and 200 mines, no sequence of
  events makes the program raise: a recursion budget above 800 frames (the safe
  blocks of the board) is enough for every cascade, and Python's default limit of
  1000 frames leaves that much after the few frames below \<open>one_block_sweep\<close>
  (the module, \<open>screen_run\<close>, \<open>click\<close>, \<open>left_click\<close>, and at the deepest
  level \<open>_get_num_mines\<close>, \<open>_get_neighbors\<close>, \<open>_get\<close>).
\<close>

section \<open>The event loop: \<open>screen_run\<close>\<close>

text \<open>
  The pygame events \<open>screen_run\<close> reacts to: \<open>QUIT\<close>, \<open>MOUSEBUTTONDOWN\<close> with its
  position and button, and any other event, which it ignores.
\<close>

datatype gui_event = Quit_Event | Mouse_Down int int int | Other_Event

text \<open>
  The inner loop \<open>for event in pygame.event.get()\<close>: \<open>sys.exit()\<close> on \<open>QUIT\<close>
  ends the program (\<open>True\<close>), a mouse button calls \<open>click\<close>.
\<close>

fun handle_events ::
  "nat \<Rightarrow> mine_model_board \<Rightarrow> gui_event list \<Rightarrow> (bool \<times> mine_model_board) py_result" where
  "handle_events n s [] = Inr (False, s)"
| "handle_events n s (Quit_Event # rest) = Inr (True, s)"
| "handle_events n s (Mouse_Down x y b # rest) =
     (case gui_click n s x y b of Inl e \<Rightarrow> Inl e | Inr t \<Rightarrow> handle_events n t rest)"
| "handle_events n s (Other_Event # rest) = handle_events n s rest"

text \<open>
  \<open>screen_run\<close>: each turn of \<open>while True\<close> draws the board (\<open>_draw_board\<close>), then
  handles the events of that frame. The loop has no exit but \<open>sys.exit()\<close>; the
  model follows it through a given list of frames, each the list of events
  \<open>pygame.event.get()\<close> returns, and reports whether it exited, the state, and
  the drawing of every frame. Sleeping and \<open>pygame.display.update()\<close> are output.
\<close>

fun screen_run ::
  "nat \<Rightarrow> mine_model_board \<Rightarrow> gui_event list list
     \<Rightarrow> (bool \<times> mine_model_board \<times> drawing list list) py_result" where
  "screen_run n s [] = Inr (False, s, [])"
| "screen_run n s (evs # frames) =
     (let d = draw_board s in
      case handle_events n s evs of
        Inl e \<Rightarrow> Inl e
      | Inr (True, t) \<Rightarrow> Inr (True, t, [d])
      | Inr (False, t) \<Rightarrow>
          (case screen_run n t frames of
             Inl e \<Rightarrow> Inl e
           | Inr (ex, u, ds) \<Rightarrow> Inr (ex, u, d # ds)))"

section \<open>The entry point\<close>

text \<open>
  \<open>if __name__ == "__main__"\<close>: build the configured board, create the window
  (output) and run the event loop on it.
\<close>

definition main_program ::
  "nat \<Rightarrow> int list \<Rightarrow> gui_event list list
     \<Rightarrow> (bool \<times> mine_model_board \<times> drawing list list) py_result" where
  "main_program n mines frames =
     (case main_board mines of
        Inl e \<Rightarrow> Inl e
      | Inr s \<Rightarrow> screen_run n s frames)"

section \<open>Lemmas: the loop keeps the board's shape\<close>

lemma handle_events_wf_dims:
  "board_wf s \<Longrightarrow> handle_events n s evs = Inr (ex, t) \<Longrightarrow>
     board_wf t \<and> h t = h s \<and> w t = w s \<and> num_mine t = num_mine s"
proof (induction n s evs rule: handle_events.induct)
  case (3 n s x y b rest)
  then obtain t' where g: "gui_click n s x y b = Inr t'" and r: "handle_events n t' rest = Inr (ex, t)"
    by (auto split: sum.splits)
  with gui_click_wf_dims [OF "3.prems"(1) g] "3.IH" [OF g] show ?case by simp
qed auto

section \<open>Lemmas: the loop never runs out of recursion budget\<close>

text \<open>Unrevealed blocks hold no mine, so there are at most \<open>h * w - num_mine\<close> of them.\<close>

lemma game_inv_unrevealed_bound:
  assumes "game_inv s"
  shows "int (count_cells (\<lambda>m. m = Unrevealed) s) + num_mine s \<le> h s * w s"
proof -
  have "count_cells (\<lambda>m. m = Unrevealed) s \<le> count_cells (\<lambda>m. \<not> is_mine_id m) s"
    by (rule count_cells_mono) (simp add: is_mine_id_def mine_marks_def)
  with game_inv_safe_count [OF assms] show ?thesis by linarith
qed

lemma gui_click_Inr:
  assumes "board_wf s" and "count_cells (\<lambda>m. m = Unrevealed) s < n"
  shows "\<exists>t. gui_click n s px py b = Inr t"
proof -
  obtain gx gy where a: "axis_2_grid px py = (gx, gy)" by (cases "axis_2_grid px py")
  obtain r where "one_block_sweep n s gy gx = Inr r" using sweep_fuel(1) [OF assms(2,1)] by blast
  with a show ?thesis by (auto simp: gui_click_def left_click_def split: prod.splits)
qed

lemma handle_events_game_inv:
  "game_inv s \<Longrightarrow> handle_events n s evs = Inr (ex, t) \<Longrightarrow> game_inv t"
proof (induction n s evs rule: handle_events.induct)
  case (3 n s x y b rest)
  then obtain t' where g: "gui_click n s x y b = Inr t'" and r: "handle_events n t' rest = Inr (ex, t)"
    by (auto split: sum.splits)
  with gui_click_game_inv [OF "3.prems"(1) g] "3.IH" [OF g] show ?case by simp
qed auto

lemma handle_events_Inr:
  "game_inv s \<Longrightarrow> h s * w s - num_mine s < int n \<Longrightarrow> \<exists>r. handle_events n s evs = Inr r"
proof (induction n s evs rule: handle_events.induct)
  case (3 n s x y b rest)
  have wf: "board_wf s" using "3.prems"(1) by (simp add: game_inv_def)
  have "count_cells (\<lambda>m. m = Unrevealed) s < n"
    using game_inv_unrevealed_bound [OF "3.prems"(1)] "3.prems"(2) by linarith
  then obtain t where g: "gui_click n s x y b = Inr t" using gui_click_Inr [OF wf] by blast
  have inv: "game_inv t" using gui_click_game_inv [OF "3.prems"(1) g] .
  have "h t * w t - num_mine t < int n" using gui_click_wf_dims [OF wf g] "3.prems"(2) by simp
  then show ?case using "3.IH" [OF g inv] g by simp
qed auto

lemma screen_run_Inr:
  "game_inv s \<Longrightarrow> h s * w s - num_mine s < int n \<Longrightarrow> \<exists>r. screen_run n s frames = Inr r"
proof (induction frames arbitrary: s)
  case (Cons evs frames)
  obtain b t where hv: "handle_events n s evs = Inr (b, t)"
    using handle_events_Inr [OF Cons.prems] by fastforce
  have inv: "game_inv t" using handle_events_game_inv [OF Cons.prems(1) hv] .
  have wf: "board_wf s" using Cons.prems(1) by (simp add: game_inv_def)
  have "h t * w t - num_mine t < int n" using handle_events_wf_dims [OF wf hv] Cons.prems(2) by simp
  then obtain r where "screen_run n t frames = Inr r" using Cons.IH [OF inv] by blast
  with hv show ?case by (cases b) (auto simp: Let_def split: prod.splits)
qed auto

section \<open>Properties of the event loop\<close>

text \<open>
  C14: with the configured board (40 by 25 blocks, 200 mines from any sample
  \<open>random.sample\<close> can return) and a recursion budget above 800, the program
  never raises, whatever the events of the frames: no click can exhaust the budget,
  since a cascade opens at most the 800 safe blocks.
\<close>

theorem main_program_no_exception:
  assumes "sample_ok 1000 200 mines" and "800 < n"
  shows "\<exists>ex t ds. main_program n mines frames = Inr (ex, t, ds)"
proof -
  have ok: "sample_ok (40 * 25) 200 mines" using assms(1) by simp
  obtain s where i: "init_board 25 40 200 mines = Inr s" and inv: "game_inv s"
    and d: "h s = 40" "w s = 25" "num_mine s = 200"
  proof (rule init_board_Inr [OF _ _ ok])
    fix s
    assume "init_board 25 40 200 mines = Inr s" "game_inv s" "h s = 40" "w s = 25" "num_mine s = 200"
    then show thesis by (rule that)
  qed simp_all
  have m: "main_program n mines frames = screen_run n s frames"
    using i by (simp add: main_program_def main_board_def game_cfg_width_def game_cfg_height_def
                          game_cfg_num_mine_def)
  have "h s * w s - num_mine s < int n" using d assms(2) by simp
  then obtain ex t ds where "screen_run n s frames = Inr (ex, t, ds)"
    using screen_run_Inr [OF inv] by (metis prod_cases3)
  with m show ?thesis by simp
qed

theorem main_program_no_exception_witness:
  "sample_ok 1000 200 [0..199] \<and> 800 < (801::nat)
   \<and> (\<exists>ex t ds. main_program 801 [0..199] [[Mouse_Down 62 62 1], [Quit_Event]] = Inr (ex, t, ds))"
proof -
  have ok: "sample_ok 1000 200 [0..199]" by (rule sample_ok_range)
  show ?thesis using ok main_program_no_exception [OF ok, of 801] by simp
qed

end
