(* ===== verification/Console.thy ===== *)
theory Console
  imports View
begin

text \<open>
  What the console game prints: the loop of \<open>run_input\<close>
  (\<open>src/mineSweeper.py\<close> lines 269--288) with its \<open>print\<close> calls, the echo
  \<open>print(op, x, y)\<close> of \<open>parse_input\<close> (line 265), and \<open>win\<close> and \<open>loss\<close>
  (lines 183--191), which print the board and a message. Standard input is the
  list of lines still to read and standard output the list of the strings
  printed, one per call of \<open>print\<close>; the loop returns its outcome (or the
  exception that ends it) together with the transcript it printed, which an
  exception does not take back.

  The lemmas show what the transcript of a won or lost game ends with, and that the board \<open>loss()\<close> prints after a losing left
  click is the board printed before it: the mine that was hit is never shown.
\<close>

section \<open>Printing\<close>

text \<open>\<open>print(op, x, y)\<close>: the three words joined by one space.\<close>

definition parse_echo :: "string \<Rightarrow> string list" where
  "parse_echo line =
     (case parse_words line of
        None \<Rightarrow> []
      | Some (op, xs, ys) \<Rightarrow> [op @ '' '' @ xs @ '' '' @ ys])"

text \<open>\<open>win()\<close> and \<open>loss()\<close>: \<open>print(self.output())\<close>, then the message.\<close>

definition win_print :: "mine_model_board \<Rightarrow> string list" where
  "win_print s = [output_text s, ''win'']"

definition loss_print :: "mine_model_board \<Rightarrow> string list" where
  "loss_print s = [output_text s, ''loss'']"

section \<open>The loop with its output\<close>

text \<open>
  One turn: print the board, read a line (\<open>EOFError\<close> when there is none),
  stop on \<open>q\<close> or \<open>r\<close>, otherwise parse it (printing the echo when the line
  has two or three words), run the step, and print the end of the game on a
  win or a loss.
\<close>

fun run_console ::
  "nat \<Rightarrow> mine_model_board \<Rightarrow> string list \<Rightarrow> (run_end \<times> mine_model_board) py_result \<times> string list"
where
  "run_console n s [] = (Inl EOFError, [output_text s])"
| "run_console n s (line # rest) =
     (let shown = [output_text s] in
      if line = ''q'' then (Inr (Quit, s), shown)
      else if line = ''r'' then (Inr (Restart, s), shown)
      else let echoed = shown @ parse_echo line in
        (case parse_input line of
           Inl e \<Rightarrow> (Inl e, echoed)
         | Inr None \<Rightarrow> (Inl TypeError, echoed)
         | Inr (Some (op, x, y)) \<Rightarrow>
             (case operation_onestep n s op x y of
                Inl e \<Rightarrow> (Inl e, echoed)
              | Inr (res, t) \<Rightarrow>
                  if res = ''win'' then (Inr (Won, t), echoed @ win_print t)
                  else if res = ''lose'' then (Inr (Lost, t), echoed @ loss_print t)
                  else (case run_console n t rest of (r, out) \<Rightarrow> (r, echoed @ out)))))"

section \<open>Lemmas\<close>

lemma run_console_Cons_step:
  assumes "line \<noteq> ''q''" and "line \<noteq> ''r''"
    and "parse_input line = Inr (Some (op, x, y))"
    and "operation_onestep n s op x y = Inr (res, t)"
    and "res \<noteq> ''win''" and "res \<noteq> ''lose''"
  shows "run_console n s (line # rest)
           = (fst (run_console n t rest), output_text s # parse_echo line @ snd (run_console n t rest))"
  using assms by (simp add: Let_def split: prod.splits)

section \<open>Properties of the console transcript\<close>

text \<open>
  C20: a console game that ends in a win or a loss prints the board first, and
  last the final board followed by \<open>win\<close> or \<open>loss\<close>.
\<close>

theorem run_console_transcript_end:
  assumes "run_console n s lines = (Inr (e, t), out)" and "e = Won \<or> e = Lost"
  shows "\<exists>mid. out = output_text s # mid @ [output_text t, if e = Won then ''win'' else ''loss'']"
  using assms
proof (induction lines arbitrary: s out)
  case Nil
  then show ?case by simp
next
  case (Cons line rest)
  show ?case
  proof (cases "line = ''q'' \<or> line = ''r''")
    case True
    with Cons.prems show ?thesis by auto
  next
    case False
    then obtain op x y res t' where p: "parse_input line = Inr (Some (op, x, y))"
      and st: "operation_onestep n s op x y = Inr (res, t')"
      using Cons.prems(1) by (auto simp: Let_def split: sum.splits option.splits prod.splits if_splits)
    consider (win) "res = ''win''" | (lose) "res = ''lose''" | (cont) "res \<noteq> ''win''" "res \<noteq> ''lose''"
      by blast
    then show ?thesis
    proof cases
      case win
      with Cons.prems False p st show ?thesis by (auto simp: Let_def win_print_def)
    next
      case lose
      with Cons.prems False p st show ?thesis by (auto simp: Let_def loss_print_def)
    next
      case cont
      have run: "run_console n s (line # rest)
                   = (fst (run_console n t' rest), output_text s # parse_echo line @ snd (run_console n t' rest))"
        using False p st cont by (intro run_console_Cons_step) auto
      then have r: "run_console n t' rest = (Inr (e, t), snd (run_console n t' rest))"
        and o: "out = output_text s # parse_echo line @ snd (run_console n t' rest)"
        using Cons.prems(1) by (metis prod.collapse prod.inject)+
      obtain mid where "snd (run_console n t' rest)
          = output_text t' # mid @ [output_text t, if e = Won then ''win'' else ''loss'']"
        using Cons.IH [OF r Cons.prems(2)] by blast
      with o show ?thesis by auto
    qed
  qed
qed

theorem run_console_transcript_end_witness:
  "run_console 9 ex_board [''1 1'']
     = (Inr (Won, ex_swept), [output_text ex_board, ''left_click 1 1'', output_text ex_swept, ''win''])
   \<and> (Won = Won \<or> Won = Lost)
   \<and> (\<exists>mid. [output_text ex_board, ''left_click 1 1'', output_text ex_swept, ''win'']
         = output_text ex_board # mid @ [output_text ex_swept, ''win''])"
proof -
  have r: "run_console 9 ex_board [''1 1'']
     = (Inr (Won, ex_swept), [output_text ex_board, ''left_click 1 1'', output_text ex_swept, ''win''])"
    by code_simp
  have e: "Won = Won \<or> Won = Lost" by simp
  show ?thesis using r e run_console_transcript_end [OF r e] by simp
qed

text \<open>
  C21: a left click on a mine ends the console game at once, and the transcript
  shows nothing of it: \<open>loss()\<close> prints \<open>output()\<close>, which hides every mine,
  of the unchanged board, so the last board printed is the board printed before
  the click and the player is never shown the mine that was hit.
\<close>

theorem run_console_loss_shows_nothing:
  assumes "line \<noteq> ''q''" and "line \<noteq> ''r''"
    and "parse_input line = Inr (Some (''left_click'', x, y))"
    and "board_get s x y = Some Mine"
  shows "run_console n s (line # rest)
           = (Inr (Lost, s), output_text s # parse_echo line @ [output_text s, ''loss''])"
  using assms
  by (simp add: Let_def operation_onestep_def click_outcome_def left_click_def loss_print_def)

theorem run_console_loss_shows_nothing_witness:
  "''3 3'' \<noteq> ''q'' \<and> ''3 3'' \<noteq> ''r''
   \<and> parse_input ''3 3'' = Inr (Some (''left_click'', 2, 2)) \<and> board_get ex_board 2 2 = Some Mine
   \<and> run_console 9 ex_board [''3 3'']
       = (Inr (Lost, ex_board),
          output_text ex_board # parse_echo ''3 3'' @ [output_text ex_board, ''loss''])"
proof -
  have q: "''3 3'' \<noteq> ''q''" "''3 3'' \<noteq> ''r''" by simp_all
  have p: "parse_input ''3 3'' = Inr (Some (''left_click'', 2, 2))" by code_simp
  have g: "board_get ex_board 2 2 = Some Mine" by code_simp
  show ?thesis using q p g run_console_loss_shows_nothing [OF q p g, of 9 "[]"] by blast
qed

end
