(* ===== verification/Worklist.thy ===== *)
theory Worklist
  imports Sweep
begin

text \<open>
  The flood fill with an explicit stack of positions in place of recursion, as
  the design notes of the specification ask for (section 9: "push neighbors onto a
  stack/queue instead of recursing"). \<open>sweep_stack\<close> is the reference: it needs no
  recursion budget, because every step either reveals a block or pops one, and it
  is a total function of HOL. The lemmas show that the recursive
  \<open>one_block_sweep\<close> of the source computes exactly what \<open>sweep_stack\<close>
  computes from the one-element stack, whenever its budget suffices; so the
  re-architecture the specification proposes keeps the behaviour, the order of the
  visits included.

  The stack holds the positions still to visit, the next one first. A nested call
  \<open>one_block_sweep(new_x, new_y)\<close> in the loop over the neighbours becomes: push
  the neighbours in front of the rest of the stack, in the order of
  \<open>_get_neighbors\<close>. \<open>board_wf\<close> guards the step that reveals: on a board
  whose rows are shorter than \<open>w\<close> a read in range may find a cell \<open>_set\<close>
  cannot write, and only the guard makes the stack function total.
\<close>

section \<open>Definition\<close>

definition neighbor_positions :: "mine_model_board \<Rightarrow> int \<Rightarrow> int \<Rightarrow> (int \<times> int) list" where
  "neighbor_positions s x y = map (\<lambda>(i, j, _). (i, j)) (get_neighbors s x y)"

function sweep_stack :: "mine_model_board \<Rightarrow> (int \<times> int) list \<Rightarrow> bool \<times> mine_model_board" where
  "sweep_stack s [] = (False, s)"
| "sweep_stack s ((x, y) # todo) =
     (if board_get s x y = Some Mine then (True, s)
      else if board_get s x y = Some Unrevealed \<and> board_wf s then
        (let s1 = reveal_block s x y
         in sweep_stack s1
              ((if get_num_mines s x y = 0 then neighbor_positions s1 x y else []) @ todo))
      else sweep_stack s todo)"
  by pat_completeness auto
termination
proof (relation "measures [\<lambda>(s, todo). count_cells (\<lambda>m. m = Unrevealed) s, \<lambda>(s, todo). length todo]")
  show "wf (measures [\<lambda>(s, todo). count_cells (\<lambda>m. m = Unrevealed) s, \<lambda>(s, todo). length todo])"
    by simp
next
  fix s x y todo s1
  assume "board_get s x y \<noteq> Some Mine" and u: "board_get s x y = Some Unrevealed \<and> board_wf s"
    and "s1 = reveal_block s x y"
  then show "((s1, (if get_num_mines s x y = 0 then neighbor_positions s1 x y else []) @ todo),
              s, (x, y) # todo)
             \<in> measures [\<lambda>(s, todo). count_cells (\<lambda>m. m = Unrevealed) s, \<lambda>(s, todo). length todo]"
    using reveal_block_unrevealed [of s x y] by simp
next
  fix s x y todo
  show "((s, todo), s, (x, y) # todo)
        \<in> measures [\<lambda>(s, todo). count_cells (\<lambda>m. m = Unrevealed) s, \<lambda>(s, todo). length todo]"
    by simp
qed

section \<open>Lemmas: the recursion and the stack\<close>

text \<open>
  The invariant of the simulation: a call of the recursion followed by the rest of
  the stack is the stack with the call's position (or the call's list of
  neighbours) in front.
\<close>

lemma sweep_stack_sim:
  "one_block_sweep n s x y = Inr r \<Longrightarrow> board_wf s \<Longrightarrow>
     sweep_stack s ((x, y) # todo) = (if fst r then r else sweep_stack (snd r) todo)"
  "sweep_neighbors n s ns = Inr r \<Longrightarrow> board_wf s \<Longrightarrow>
     sweep_stack s (map (\<lambda>(i, j, _). (i, j)) ns @ todo) = (if fst r then r else sweep_stack (snd r) todo)"
proof (induction n s x y and n s ns arbitrary: r todo and r todo
       rule: one_block_sweep_sweep_neighbors.induct)
  case (1 s x y)
  then show ?case by simp
next
  case (2 n s x y)
  let ?s1 = "reveal_block s x y"
  consider (mine) "board_get s x y = Some Mine"
    | (other) "board_get s x y \<noteq> Some Mine" "board_get s x y \<noteq> Some Unrevealed"
    | (zero) "board_get s x y = Some Unrevealed" "get_num_mines s x y = 0"
    | (count) "board_get s x y = Some Unrevealed" "get_num_mines s x y \<noteq> 0"
    by blast
  then show ?case
  proof cases
    case mine
    with "2.prems" show ?thesis by auto
  next
    case other
    with "2.prems" show ?thesis by auto
  next
    case zero
    have wf1: "board_wf ?s1"
      using reveals_one [OF "2.prems"(2) zero(1)] by (simp add: reveals_def reveal_block_def)
    have rec: "sweep_neighbors n ?s1 (get_neighbors ?s1 x y) = Inr r"
      using "2.prems"(1) zero by (simp add: reveal_block_def count_mark_def Let_def)
    have "sweep_stack s ((x, y) # todo) = sweep_stack ?s1 (neighbor_positions ?s1 x y @ todo)"
      using zero "2.prems"(2) by (simp add: Let_def)
    also have "\<dots> = (if fst r then r else sweep_stack (snd r) todo)"
      using "2.IH" [OF _ _ _ _ rec wf1] zero
      by (simp add: neighbor_positions_def reveal_block_def count_mark_def)
    finally show ?thesis .
  next
    case count
    have r: "r = (False, ?s1)"
      using "2.prems"(1) count by (simp add: reveal_block_def count_mark_def)
    show ?thesis using count "2.prems"(2) r by simp
  qed
next
  case (3 n s)
  then show ?case by auto
next
  case (4 n s i j m rest)
  obtain b' s' where r1: "one_block_sweep n s i j = Inr (b', s')"
    using "4.prems"(1) by (auto split: sum.splits)
  show ?case
  proof (cases b')
    case True
    then have "r = (True, s')" using "4.prems"(1) r1 by simp
    then show ?thesis using "4.IH"(1) [OF r1 "4.prems"(2)] True by simp
  next
    case False
    have rest: "sweep_neighbors n s' rest = Inr r" using "4.prems"(1) r1 False by simp
    have wf': "board_wf s'" using sweep_reveals(1) [OF r1 "4.prems"(2)] by (simp add: reveals_def)
    have "sweep_stack s (map (\<lambda>(i, j, _). (i, j)) ((i, j, m) # rest) @ todo)
          = sweep_stack s' (map (\<lambda>(i, j, _). (i, j)) rest @ todo)"
      using "4.IH"(1) [OF r1 "4.prems"(2)] False by simp
    also have "\<dots> = (if fst r then r else sweep_stack (snd r) todo)"
      using "4.IH"(2) [OF r1 refl _ rest wf'] False by simp
    finally show ?thesis .
  qed
qed

section \<open>Properties\<close>

text \<open>
  C13: the recursive cascading reveal and the stack-based flood fill of the
  specification's design notes agree: with a recursion budget above the number of
  unrevealed blocks, \<open>one_block_sweep\<close> returns, and returns exactly the outcome
  and the board that \<open>sweep_stack\<close> computes from the stack holding the clicked
  block alone.
\<close>

theorem one_block_sweep_eq_stack:
  assumes "board_wf s" and "count_cells (\<lambda>m. m = Unrevealed) s < n"
  shows "one_block_sweep n s x y = Inr (sweep_stack s [(x, y)])"
proof -
  obtain r where r: "one_block_sweep n s x y = Inr r" using sweep_fuel(1) [OF assms(2,1)] by blast
  have "sweep_stack s [(x, y)] = r"
    using sweep_stack_sim(1) [OF r assms(1), of "[]"] by (cases r) (simp add: fst_def)
  with r show ?thesis by simp
qed

theorem one_block_sweep_eq_stack_witness:
  "board_wf ex_board \<and> count_cells (\<lambda>m. m = Unrevealed) ex_board < 9
   \<and> one_block_sweep 9 ex_board 0 0 = Inr (sweep_stack ex_board [(0, 0)])
   \<and> sweep_stack ex_board [(0, 0)] = (False, ex_swept)"
proof -
  have wf: "board_wf ex_board" by code_simp
  have cnt: "count_cells (\<lambda>m. m = Unrevealed) ex_board < 9" by code_simp
  have st: "sweep_stack ex_board [(0, 0)] = (False, ex_swept)" by code_simp
  show ?thesis using wf cnt st one_block_sweep_eq_stack [OF wf cnt] by blast
qed

end
