(* ===== verification/Spec_Model.thy ===== *)
theory Spec_Model
  imports Actions
begin

text \<open>
  The board state machine as the specification describes it (\<open>spec.md\<close>,
  sections 3, 4.1 and 9), and the refinement of that description by the model of
  \<open>MineModelBoard\<close>. A cell is either covered, with its fixed mine identity and
  its stage on the right-click ring (0 hidden, 1 flagged, 2 marked "?"), or
  opened with the number of mines around it: the "two parallel tracks with an
  index-based advance" of the specification's design notes. \<open>abs_board\<close> maps a
  Python board to this state; \<open>toggle_flag\<close> and the adjacency counts are the
  specification's. The theorems show that
  \<open>right_click\<close> implements \<open>toggle_flag\<close>, that the neighbour scans of
  \<open>_get_num_mines\<close>/\<open>_get_num_flagged_blocks\<close> compute the specification's
  adjacency counts.
\<close>

section \<open>The specification's state\<close>

datatype spec_cell = Covered bool nat | Opened nat

text \<open>The right-click ring on each track: \<open>Hidden \<rightarrow> Flagged \<rightarrow> Marked \<rightarrow> Hidden\<close>.\<close>

fun advance :: "spec_cell \<Rightarrow> spec_cell" where
  "advance (Covered b i) = Covered b ((i + 1) mod 3)"
| "advance (Opened k) = Opened k"

fun is_mine_cell :: "spec_cell \<Rightarrow> bool" where
  "is_mine_cell (Covered b _) = b"
| "is_mine_cell (Opened _) = False"

fun is_marked_cell :: "spec_cell \<Rightarrow> bool" where
  "is_marked_cell (Covered _ i) = (i \<noteq> 0)"
| "is_marked_cell (Opened _) = False"

definition flagged_mine :: spec_cell where
  "flagged_mine = Covered True 1"

record spec_board =
  sb_width :: int
  sb_height :: int
  sb_num_mines :: int
  sb_cells :: "spec_cell list list"
  mines_remaining :: int
  cells_revealed :: int

definition sb_get :: "spec_board \<Rightarrow> int \<Rightarrow> int \<Rightarrow> spec_cell option" where
  "sb_get sb x y =
     (if 0 \<le> x \<and> x < sb_width sb \<and> 0 \<le> y \<and> y < sb_height sb
      then Some (sb_cells sb ! nat y ! nat x) else None)"

definition sb_set :: "spec_board \<Rightarrow> int \<Rightarrow> int \<Rightarrow> spec_cell \<Rightarrow> spec_board" where
  "sb_set sb x y c =
     (if 0 \<le> x \<and> x < sb_width sb \<and> 0 \<le> y \<and> y < sb_height sb
      then sb\<lparr>sb_cells := (sb_cells sb)[nat y := (sb_cells sb ! nat y)[nat x := c]]\<rparr>
      else sb)"

definition sb_coords :: "spec_board \<Rightarrow> (int \<times> int) list" where
  "sb_coords sb = [(x, y). y \<leftarrow> [0..sb_height sb - 1], x \<leftarrow> [0..sb_width sb - 1]]"

text \<open>
  \<open>toggle_flag(x, y)\<close>: advance the cell on its ring; decrement
  \<open>mines_remaining\<close> when entering \<open>FlaggedMine\<close>, increment it when leaving;
  out of bounds a no-op.
\<close>

definition toggle_flag :: "spec_board \<Rightarrow> int \<Rightarrow> int \<Rightarrow> spec_board" where
  "toggle_flag sb x y =
     (case sb_get sb x y of
        None \<Rightarrow> sb
      | Some c \<Rightarrow> (sb_set sb x y (advance c))
          \<lparr>mines_remaining := mines_remaining sb + (if c = flagged_mine then 1 else 0)
                                - (if advance c = flagged_mine then 1 else 0)\<rparr>)"

text \<open>
  The adjacency counts: the cells of the board other than \<open>(x, y)\<close> within
  distance one in both coordinates that satisfy \<open>P\<close>, counted over the whole grid.
\<close>

definition adjacency_count :: "(spec_cell \<Rightarrow> bool) \<Rightarrow> spec_board \<Rightarrow> int \<Rightarrow> int \<Rightarrow> nat" where
  "adjacency_count P sb x y =
     length (filter (\<lambda>(i, j). (i, j) \<noteq> (x, y) \<and> \<bar>i - x\<bar> \<le> 1 \<and> \<bar>j - y\<bar> \<le> 1
                               \<and> (case sb_get sb i j of Some c \<Rightarrow> P c | None \<Rightarrow> False))
                    (sb_coords sb))"

definition mine_adjacency_count :: "spec_board \<Rightarrow> int \<Rightarrow> int \<Rightarrow> nat" where
  "mine_adjacency_count = adjacency_count is_mine_cell"

definition flag_adjacency_count :: "spec_board \<Rightarrow> int \<Rightarrow> int \<Rightarrow> nat" where
  "flag_adjacency_count = adjacency_count is_marked_cell"

section \<open>Abstraction of the Python board\<close>

fun abs_mark :: "mark \<Rightarrow> spec_cell" where
  "abs_mark Unrevealed = Covered False 0"
| "abs_mark Mine = Covered True 0"
| "abs_mark WrongFlag = Covered False 1"
| "abs_mark Flag = Covered True 1"
| "abs_mark MarkSafe = Covered False 2"
| "abs_mark MarkMine = Covered True 2"
| "abs_mark Blank = Opened 0"
| "abs_mark (Digit n) = Opened n"

definition abs_board :: "mine_model_board \<Rightarrow> spec_board" where
  "abs_board s =
     \<lparr>sb_width = w s, sb_height = h s, sb_num_mines = num_mine s,
      sb_cells = map (map abs_mark) (board s),
      mines_remaining = curr_mine s, cells_revealed = curr_eval s\<rparr>"

section \<open>Lemmas\<close>

lemma abs_mark_next [simp]: "abs_mark (next_mark m) = advance (abs_mark m)"
  by (cases m) simp_all

lemma abs_mark_flagged [simp]: "abs_mark m = flagged_mine \<longleftrightarrow> m = Flag"
  by (cases m) (simp_all add: flagged_mine_def)

lemma abs_mark_preds [simp]:
  "is_mine_cell (abs_mark m) = is_mine_id m"
  "is_marked_cell (abs_mark m) = (m \<in> set flagged_marks)"
  by (cases m; simp add: is_mine_id_def)+

lemma sb_get_abs:
  assumes "board_wf s"
  shows "sb_get (abs_board s) x y = map_option abs_mark (board_get s x y)"
  using assms by (auto simp: sb_get_def board_get_def abs_board_def board_wf_def)

lemma abs_board_set:
  assumes "board_wf s"
  shows "abs_board (board_set s x y m) = sb_set (abs_board s) x y (abs_mark m)"
  using assms
  by (auto simp: board_set_def sb_set_def abs_board_def board_wf_def map_update)

lemma abs_board_curr_mine [simp]:
  "abs_board (s\<lparr>curr_mine := c\<rparr>) = (abs_board s)\<lparr>mines_remaining := c\<rparr>"
  by (simp add: abs_board_def)

lemma sb_coords_abs [simp]: "sb_coords (abs_board s) = coords s"
  by (simp add: sb_coords_def coords_def abs_board_def)

lemma set_neighbor_candidates:
  "(i, j) \<in> set (neighbor_candidates x y) \<longleftrightarrow> (i, j) \<noteq> (x, y) \<and> \<bar>i - x\<bar> \<le> 1 \<and> \<bar>j - y\<bar> \<le> 1"
proof
  assume "(i, j) \<in> set (neighbor_candidates x y)"
  then show "(i, j) \<noteq> (x, y) \<and> \<bar>i - x\<bar> \<le> 1 \<and> \<bar>j - y\<bar> \<le> 1"
    by (auto simp: neighbor_candidates_def)
next
  assume a: "(i, j) \<noteq> (x, y) \<and> \<bar>i - x\<bar> \<le> 1 \<and> \<bar>j - y\<bar> \<le> 1"
  then have "i = x - 1 \<or> i = x \<or> i = x + 1" and "j = y - 1 \<or> j = y \<or> j = y + 1" by arith+
  with a show "(i, j) \<in> set (neighbor_candidates x y)"
    by (auto simp: neighbor_candidates_def)
qed

lemma distinct_neighbor_candidates: "distinct (neighbor_candidates x y)"
  by (simp add: neighbor_candidates_def)

text \<open>A count over the eight candidates is a count over the board, for a test that implies being on it.\<close>

lemma candidates_count_board:
  assumes "\<And>i j. R (i, j) \<Longrightarrow> in_board s i j"
  shows "length (filter R (neighbor_candidates x y)) =
         length (filter (\<lambda>(i, j). (i, j) \<noteq> (x, y) \<and> \<bar>i - x\<bar> \<le> 1 \<and> \<bar>j - y\<bar> \<le> 1 \<and> R (i, j))
                        (coords s))"
proof -
  have "{p. R p} \<inter> set (neighbor_candidates x y) =
        {p. case p of (i, j) \<Rightarrow> (i, j) \<noteq> (x, y) \<and> \<bar>i - x\<bar> \<le> 1 \<and> \<bar>j - y\<bar> \<le> 1 \<and> R (i, j)}
        \<inter> set (coords s)"
    using assms by (auto simp: set_neighbor_candidates)
  then show ?thesis
    by (simp add: distinct_length_filter distinct_neighbor_candidates)
qed

lemma count_neighbors_spec:
  assumes "board_wf s" and "\<And>m. Q (abs_mark m) = P m"
  shows "sum_list (map (\<lambda>(_, _, m). if P m then 1 else 0) (get_neighbors s x y)) =
         adjacency_count Q (abs_board s) x y"
proof -
  let ?R = "\<lambda>(i, j). case board_get s i j of Some m \<Rightarrow> P m | None \<Rightarrow> False"
  have "length (filter ?R (neighbor_candidates x y)) =
        length (filter (\<lambda>(i, j). (i, j) \<noteq> (x, y) \<and> \<bar>i - x\<bar> \<le> 1 \<and> \<bar>j - y\<bar> \<le> 1 \<and> ?R (i, j))
                       (coords s))"
    by (rule candidates_count_board) (auto split: option.splits dest: board_get_in_board)
  also have "\<dots> = adjacency_count Q (abs_board s) x y"
    unfolding adjacency_count_def sb_coords_abs sb_get_abs [OF assms(1)]
    by (rule arg_cong [where f = length], rule filter_cong) (auto simp: assms(2) split: option.splits)
  finally show ?thesis by (simp only: count_neighbors)
qed

section \<open>Properties: the model refines the specification\<close>

text \<open>
  C9: \<open>right_click\<close> implements the specification's \<open>toggle_flag\<close>: abstracting
  the board after a right click gives the specification's state after
  \<open>toggle_flag\<close> on the abstraction, cell ring and \<open>mines_remaining\<close> included,
  on every block and outside the board.
\<close>

theorem right_click_refines_toggle_flag:
  assumes "board_wf s"
  shows "abs_board (right_click s x y) = toggle_flag (abs_board s) x y"
proof (cases "board_get s x y")
  case None
  then have "right_click s x y = s" by (simp add: right_click_out board_get_None_iff [symmetric])
  with None show ?thesis by (simp add: toggle_flag_def sb_get_abs [OF assms])
next
  case (Some m)
  have "abs_board (right_click s x y) =
          (sb_set (abs_board s) x y (advance (abs_mark m)))
            \<lparr>mines_remaining := curr_mine s + (if m = Flag then 1 else 0)
                                 - (if next_mark m = Flag then 1 else 0)\<rparr>"
    by (simp add: right_click_in [OF assms Some] abs_board_set [OF assms])
  moreover have "mines_remaining (abs_board s) = curr_mine s" by (simp add: abs_board_def)
  ultimately show ?thesis
    by (simp add: toggle_flag_def sb_get_abs [OF assms] Some flip: abs_mark_next)
qed

theorem right_click_refines_toggle_flag_witness:
  "board_wf ex_board \<and>
   abs_board (right_click ex_board 2 2) = toggle_flag (abs_board ex_board) 2 2"
proof -
  have wf: "board_wf ex_board" by code_simp
  show ?thesis using wf right_click_refines_toggle_flag [OF wf] by blast
qed

text \<open>
  C10: the neighbour scans of \<open>_get_num_mines\<close> and \<open>_get_num_flagged_blocks\<close>
  (eight candidate offsets, filtered by \<open>_get\<close>) compute the specification's
  \<open>mine_adjacency_count\<close> and \<open>flag_adjacency_count\<close>, counted over the whole
  grid.
\<close>

theorem neighbor_counts_match_spec:
  assumes "board_wf s"
  shows "get_num_mines s x y = mine_adjacency_count (abs_board s) x y
       \<and> get_num_flagged_blocks s x y = flag_adjacency_count (abs_board s) x y"
proof
  show "get_num_mines s x y = mine_adjacency_count (abs_board s) x y"
    unfolding get_num_mines_def mine_adjacency_count_def
    by (rule count_neighbors_spec [OF assms]) (simp add: is_mine_id_def del: mine_marks_iff)
  show "get_num_flagged_blocks s x y = flag_adjacency_count (abs_board s) x y"
    unfolding get_num_flagged_blocks_def flag_adjacency_count_def
    by (rule count_neighbors_spec [OF assms]) (simp del: flagged_marks_iff)
qed

theorem neighbor_counts_match_spec_witness:
  "board_wf ex_board \<and> get_num_mines ex_board 1 1 = mine_adjacency_count (abs_board ex_board) 1 1
   \<and> get_num_flagged_blocks ex_board 1 1 = flag_adjacency_count (abs_board ex_board) 1 1"
proof -
  have wf: "board_wf ex_board" by code_simp
  show ?thesis using wf neighbor_counts_match_spec [OF wf] by blast
qed

end
