(* ===== verification/Spec2Isabelle.thy ===== *)
theory Spec2Isabelle
  imports Event_Loop Console Worklist Spec_Model
begin

text \<open>
  \<^bold>\<open>Minesweeper (src/mineSweeper.py): a verified model.\<close>

  \<^medskip>\<^bold>\<open>The program.\<close> One Python module. \<open>MineModelBoard\<close> holds the game
  state (sizes \<open>h\<close>, \<open>w\<close>, \<open>num_mine\<close>, the grid \<open>board\<close> of one-character
  strings, the counters \<open>curr_mine\<close> and \<open>curr_eval\<close>) and the operations on it:
  construction with a random mine layout (\<open>__init__\<close>, \<open>_reset\<close>), accessors
  (\<open>_get\<close>, \<open>_set\<close>, \<open>_get_neighbors\<close>, \<open>_get_num_mines\<close>,
  \<open>_get_num_flagged_blocks\<close>), the three clicks (\<open>left_click\<close>,
  \<open>right_click\<close>, \<open>both_click\<close>), the recursive flood fill
  \<open>one_block_sweep\<close>, the step \<open>operation_onestep\<close> that dispatches a click
  and tests for loss and win, the text rendering \<open>output\<close>, the console loop
  \<open>run_input\<close> with its parser, and \<open>win\<close>/\<open>loss\<close>, which print the
  final board. \<open>MineControlBoard\<close> maps mouse pixels to blocks and calls
  the clicks; \<open>MineViewBoard\<close> draws the blocks with pygame; the entry point
  builds a \<open>MineViewBoard\<close> from the configuration dictionaries.

  \<^medskip>\<^bold>\<open>The theories.\<close>
  \<^item> \<open>MS_Prelude\<close>: Python exceptions as the datatype \<open>py_error\<close> and results
    \<open>py_error + 'a\<close>; rule collections; counting lemmas on lists.
  \<^item> \<open>Py_Str\<close>: the string built-ins the program calls (\<open>in\<close>, \<open>str\<close>,
    \<open>int\<close>, \<open>split\<close>, \<open>join\<close>), with \<open>int(str(n)) = n\<close>.
  \<^item> \<open>Marks\<close>: one constructor per string a block can hold (\<open>mark\<close>,
    \<open>mark_str\<close>), the table of \<open>right_click\<close> (\<open>next_mark\<close>) and that of
    \<open>output\<close> (\<open>hidden_dct\<close>).
  \<^item> \<open>Board\<close>: the state as the record \<open>mine_model_board\<close> and the accessors
    \<open>board_get\<close>, \<open>board_set\<close>, \<open>get_neighbors\<close>, \<open>get_num_mines\<close>,
    \<open>get_num_flagged_blocks\<close>; well-formedness \<open>board_wf\<close>, the count of blocks
    of a kind \<open>count_cells\<close>, the mine layout \<open>mine_layout\<close>.
  \<^item> \<open>Sweep\<close>: \<open>one_block_sweep\<close> and its loop over the neighbours as the mutual
    functions \<open>one_block_sweep\<close>/\<open>sweep_neighbors\<close>; the relation \<open>reveals\<close>
    says what a sweep may change; termination, effect and safety of the sweep.
  \<^item> \<open>Actions\<close>: \<open>left_click\<close>, \<open>right_click\<close>, \<open>both_click\<close> (with its loop
    \<open>chord_sweep\<close>), \<open>click_outcome\<close>, \<open>operation_onestep\<close>; the invariant
    \<open>game_inv\<close> and that every action keeps it; loss, win and error behaviour.
  \<^item> \<open>Game\<close>: \<open>_reset\<close>/\<open>__init__\<close> as \<open>reset_board\<close>/\<open>init_board\<close>,
    \<open>parse_input\<close> (its word splitting \<open>parse_words\<close>) and \<open>run_input\<close>;
    the console can always win.
  \<^item> \<open>Worklist\<close>: the flood fill with an explicit stack (\<open>sweep_stack\<close>), the
    re-architecture the specification's design notes propose, and its
    equivalence with the recursive \<open>one_block_sweep\<close>.
  \<^item> \<open>View\<close>: \<open>output\<close> (\<open>output_text\<close>), \<open>_axis_2_grid\<close>, \<open>click\<close>
    (\<open>gui_click\<close>), \<open>_draw_block\<close>, \<open>_draw_board\<close>, the configuration and
    the board of the entry point (\<open>main_board\<close>).
  \<^item> \<open>Console\<close>: what the console prints: \<open>run_input\<close> with its \<open>print\<close>
    calls as \<open>run_console\<close>, returning the transcript (one string per
    \<open>print\<close>), the echo of \<open>parse_input\<close> (\<open>parse_echo\<close>), \<open>win\<close> and
    \<open>loss\<close> (\<open>win_print\<close>, \<open>loss_print\<close>).
  \<^item> \<open>Event_Loop\<close>: the event loop \<open>screen_run\<close> over a list of frames of
    pygame events (\<open>handle_events\<close>) and the entry point \<open>main_program\<close>.
  \<^item> \<open>Spec_Model\<close>: the board state machine as \<open>spec.md\<close> describes it (cells
    covered with a mine identity and a stage on the right-click ring, or opened
    with a count; \<open>toggle_flag\<close>; the adjacency counts), the
    abstraction \<open>abs_board\<close> of a Python board, and the refinement theorems.
  \<^item> this theory: the states the program can reach (\<open>reachable\<close>: construction,
    then console steps and mouse clicks in any order) and what holds in all of
    them.

  \<^medskip>\<^bold>\<open>Correspondence.\<close> Each Python method is one definition with the
  method's name (\<open>output\<close> is \<open>output_text\<close>, \<open>click\<close> is \<open>gui_click\<close>,
  \<open>_get\<close>/\<open>_set\<close> are \<open>board_get\<close>/\<open>board_set\<close>); a method that mutates
  \<open>self\<close> takes the state and returns the new one; a method that may raise
  returns \<open>py_error + 'a\<close>; Python's \<open>None\<close>/\<open>True\<close> results are \<open>bool\<close>.
  Python integers are \<open>int\<close>, \<open>//\<close> and \<open>%\<close> are \<open>div\<close> and \<open>mod\<close>.
  Loops over lists are recursive functions over the same lists, in the same
  order, with the same \<open>break\<close>s and \<open>return\<close>s.

  \<^medskip>\<^bold>\<open>Recursion budget.\<close> \<open>one_block_sweep\<close> recurses once per revealed
  block, and CPython stops it with \<open>RecursionError\<close> at its recursion limit.
  The model gives the sweep a budget \<open>n\<close> (the fuel), decremented on each
  nested call, and returns \<open>Inl RecursionError\<close> when it is used up. The
  theorems never assume that a sweep returns: they prove that it does once the
  budget exceeds the number of unrevealed blocks (\<open>one_block_sweep_terminates\<close>,
  \<open>operation_onestep_no_exception\<close>), since each nested call reveals a block
  first; an unrevealed block holds no mine, so a budget above the number of safe
  blocks \<open>h * w - num_mine\<close> suffices in every state of the game. The shipped
  board has 1000 blocks and 200 mines, so a budget of 801 nested calls is
  enough (\<open>main_program_no_exception\<close>), and CPython's default limit of
  1000 frames leaves more than that after the seven frames below and above the
  sweep. The reference \<open>sweep_stack\<close> needs no budget at all: it is total, by
  a lexicographic measure (unrevealed blocks, then stack length).

  \<^medskip>\<^bold>\<open>What the theorems show.\<close> The sweep reveals exactly the blocks it
  changes, each with the right count, never a mine, and terminates with enough
  budget. A left click loses exactly on a hidden mine; the win test holds
  exactly when every block without a mine is revealed; three right clicks
  restore a block and the counter; a double click with too few flags does
  nothing, loses exactly when its count is matched by marks and a neighbour is
  an unmarked hidden mine (a wrong flag exposes the mine it left unmarked), and
  outside the board raises \<open>TypeError\<close>. A constructed board
  satisfies \<open>game_inv\<close> with its mines at the sampled positions, and every
  reachable state satisfies it, so the remaining-mine counter stays in
  \<open>[0, num_mine]\<close> and the revealed count below \<open>h * w - num_mine\<close>. The console
  parses every alias and ends on a malformed line with \<open>TypeError\<close>; a win of
  the console has every safe block revealed. The text rendering shows a mine as
  an unrevealed block, a wrong flag as a flag and a \<open>!\<close> as a \<open>?\<close>, and has
  rows as wide as its separators; the window acts on the block drawn under the
  pointer, but shows wrong flags and ignores losses; the board of the entry
  point fits the window, and no sequence of events makes the shipped program
  raise. The cascade is a complete
  flood fill: no block it opens as blank keeps an unrevealed neighbour, and it
  computes exactly what the stack-based flood fill of the specification's design
  notes computes, visiting the blocks in the same order. A console game that ends
  prints the final board and
  \<open>win\<close> or \<open>loss\<close>, and after a losing left click the final board printed is
  the one printed before the click.
  Against the specification: \<open>right_click\<close> refines \<open>toggle_flag\<close>, the
  neighbour scans compute the specification's adjacency counts, and every
  reachable state holds only the documented statuses. Liveness: from every reachable state the console can
  still win, with a recursion budget above the number of blocks; the proof is
  a well-founded induction on the weight \<open>covered_safe_weight\<close> of the covered
  safe blocks, which one right or left click always decreases.

  \<^medskip>\<^bold>\<open>Not modelled.\<close> Logging (\<open>logging.*\<close>, and the log-only
  \<open>psudo_click\<close>, of which only the logged blocks \<open>psudo_click_targets\<close>
  are modelled), which writes to a diagnostic channel no code reads; the empty
  \<open>reset\<close> method, which no code calls (the console's \<open>r\<close> just returns, the
  \<open>Restart\<close> outcome); the import lines and \<open>logging.basicConfig\<close>; the pygame
  calls (\<open>pygame.init\<close>, \<open>create_screen\<close>'s window, fonts, \<open>time.sleep\<close>,
  \<open>pygame.display.update\<close>, \<open>pygame.draw.rect\<close>, \<open>blit\<close>), whose
  arguments \<open>draw_block\<close> and \<open>screen_run\<close> return instead, and the
  never-ending \<open>while True\<close> of \<open>screen_run\<close> beyond a given list of frames; the distribution of \<open>random.sample\<close>, of which only the set of
  possible results (\<open>sample_ok\<close>) matters to the theorems.
\<close>

section \<open>Reachable states\<close>

text \<open>
  A board is built by \<open>__init__\<close> with a sample \<open>random.sample\<close> can return;
  then the console (\<open>operation_onestep\<close>) and the window (\<open>gui_click\<close>) act on
  it in any order, with the recursion budget \<open>n\<close>. Steps after a win or a loss
  are allowed too, so the invariants below hold in more states than the program
  reaches.
\<close>

inductive reachable :: "nat \<Rightarrow> mine_model_board \<Rightarrow> bool" for n :: nat where
  init: "0 \<le> width \<Longrightarrow> 0 \<le> height \<Longrightarrow> sample_ok (height * width) k mines \<Longrightarrow>
           init_board width height k mines = Inr s \<Longrightarrow> reachable n s"
| step: "reachable n s \<Longrightarrow> operation_onestep n s op x y = Inr (res, t) \<Longrightarrow> reachable n t"
| gui: "reachable n s \<Longrightarrow> gui_click n s px py b = Inr t \<Longrightarrow> reachable n t"

section \<open>Lemmas\<close>

lemma reachable_inv: "reachable n s \<Longrightarrow> game_inv s"
proof (induction rule: reachable.induct)
  case (init width height k mines s)
  then show ?case by (metis init_board_Inr sum.inject(2))
next
  case (step s op x y res t)
  then show ?case by (elim operation_onestep_game_inv)
next
  case (gui s px py b t)
  then show ?case by (elim gui_click_game_inv)
qed

lemma reachable_ex_board: "reachable n ex_board"
proof -
  have ok: "sample_ok (3 * 3) 1 [8]" by code_simp
  have i: "init_board 3 3 1 [8] = Inr ex_board" by code_simp
  show ?thesis by (rule reachable.init [OF _ _ ok i]) simp_all
qed

lemma game_inv_curr_eval_bounds:
  assumes "game_inv s"
  shows "0 \<le> curr_eval s \<and> curr_eval s + num_mine s \<le> h s * w s"
proof -
  have "count_cells is_revealed s \<le> count_cells (\<lambda>m. \<not> is_mine_id m) s"
    by (rule count_cells_mono) (auto simp: is_mine_id_def elim: is_revealed.elims)
  with game_inv_safe_count [OF assms] assms show ?thesis by (simp add: game_inv_def)
qed

section \<open>Properties of the whole program\<close>

text \<open>
  C1: every state the program can reach satisfies the game invariant: the board
  has \<open>h\<close> rows of \<open>w\<close> blocks, \<open>num_mine\<close> of which hold a mine, the counters
  agree with the board, every revealed count is right. Hence the remaining-mine
  counter stays between 0 and \<open>num_mine\<close>, and the revealed count between 0 and
  the number of safe blocks.
\<close>

theorem reachable_game_inv:
  assumes "reachable n s"
  shows "game_inv s \<and> 0 \<le> curr_mine s \<and> curr_mine s \<le> num_mine s
         \<and> 0 \<le> curr_eval s \<and> curr_eval s + num_mine s \<le> h s * w s"
  using reachable_inv [OF assms] game_inv_curr_mine_bounds game_inv_curr_eval_bounds by blast

theorem reachable_game_inv_witness:
  "reachable 9 ex_swept \<and> game_inv ex_swept \<and> 0 \<le> curr_mine ex_swept
   \<and> curr_mine ex_swept \<le> num_mine ex_swept \<and> 0 \<le> curr_eval ex_swept
   \<and> curr_eval ex_swept + num_mine ex_swept \<le> h ex_swept * w ex_swept"
proof -
  have st: "operation_onestep 9 ex_board ''left_click'' 0 0 = Inr (''win'', ex_swept)" by code_simp
  have r: "reachable 9 ex_swept" by (rule reachable.step [OF reachable_ex_board st])
  show ?thesis using r reachable_game_inv [OF r] by blast
qed

text \<open>
  C15: in every reachable state the board is well formed and every block holds
  one of the statuses the class docstring lists (\<open>" "\<close>, \<open>X\<close>, \<open>F\<close>, \<open>W\<close>,
  \<open>?\<close>, \<open>!\<close>, \<open>B\<close>, \<open>1\<close>--\<open>8\<close>): no count 0 or above 8 is ever written.
\<close>

theorem reachable_block_statuses:
  assumes "reachable n s"
  shows "board_wf s \<and> list_all (list_all (\<lambda>m. mark_str m \<in> set block_statuses)) (board s)"
proof -
  have inv: "game_inv s" using assms by (rule reachable_inv)
  then have wf: "board_wf s" by (simp add: game_inv_def)
  have "mark_str m \<in> set block_statuses" if r: "row \<in> set (board s)" and mm: "m \<in> set row" for row m
  proof -
    obtain x y where "board_get s x y = Some m" using board_get_mem [OF wf r mm] .
    then show ?thesis using game_inv_digit_range [OF inv] by (intro mark_str_status) blast
  qed
  with wf show ?thesis by (simp add: list_all_iff)
qed

theorem reachable_block_statuses_witness:
  "reachable 9 ex_board \<and> board_wf ex_board
   \<and> list_all (list_all (\<lambda>m. mark_str m \<in> set block_statuses)) (board ex_board)"
  using reachable_block_statuses [OF reachable_ex_board] reachable_ex_board by blast

text \<open>
  C11: the game can always be won: from every reachable state there are console
  input lines that make \<open>run_input\<close> end with \<open>win()\<close>, once the recursion budget
  exceeds the number of blocks. Wrong flags and \<open>!\<close> marks on safe blocks are
  first cleared by right clicks, then every safe block is left-clicked.
\<close>

theorem reachable_winnable:
  assumes "reachable n s" and "h s * w s < int n"
  shows "\<exists>lines t. run_input n s lines = Inr (Won, t)"
  using console_winnable [OF reachable_inv [OF assms(1)] assms(2)] .

theorem reachable_winnable_witness:
  "reachable 10 ex_board \<and> h ex_board * w ex_board < int 10
   \<and> (\<exists>lines t. run_input 10 ex_board lines = Inr (Won, t))"
proof -
  have a: "h ex_board * w ex_board < int 10" by code_simp
  show ?thesis using reachable_winnable [OF reachable_ex_board a] reachable_ex_board a by blast
qed

end
